theory Spec2Isabelle
  imports Main
begin

section \<open>Webring navigation (src/lib/webRingNavigation.ts)\<close>

text \<open>
  The module computes the previous and the next member of a ring of sites. Its four
  functions are embedded below, in the order of the source file.

  Strings are \<^typ>\<open>string\<close>, one character for one code unit. Indices are \<^typ>\<open>int\<close>: the source works with the
  sentinel \<open>-1\<close> of \<open>findIndex\<close> and with \<open>sitesLength - 1\<close>, and array lengths are far
  below the range in which a JavaScript number stops being an exact integer.
\<close>

subsection \<open>The platform: exceptions and the \<open>URL\<close> constructor\<close>

text \<open>
  The only operation of the module that can throw is the platform's constructor
  \<open>new URL(s)\<close>, which throws a \<open>TypeError\<close> on a string it cannot parse. A computation
  that may throw has a result of type \<open>error + 'a\<close>, with \<open>Inl\<close> for the exception.
\<close>

datatype error = TypeError

text \<open>
  Of a parsed URL the module reads the properties \<open>protocol\<close> (the scheme with its colon,
  such as \<open>https:\<close>), \<open>hostname\<close>, \<open>port\<close> (the empty string when the URL has none) and
  \<open>origin\<close>.
\<close>

record url =
  protocol :: string
  hostname :: string
  port :: string
  origin :: string

text \<open>
  The constructor itself belongs to the platform, not to the module. The functions below
  take it as their first argument \<open>URL\<close>, of type \<^typ>\<open>string \<Rightarrow> error + url\<close>, so that
  what is proved for every \<open>URL\<close> holds whatever the platform's parser does.
\<close>

text \<open>
  \<open>try { body } catch { handler }\<close>: the handler runs when the body throws; the source's
  \<open>catch\<close> clauses bind no exception variable.
\<close>

definition try_catch :: "error + 'a \<Rightarrow> error + 'a \<Rightarrow> error + 'a" where
  "try_catch body handler = (case body of Inl e \<Rightarrow> handler | Inr v \<Rightarrow> Inr v)"

subsection \<open>String primitives\<close>

text \<open>
  \<open>String.prototype.toLowerCase\<close> on the ASCII letters; every other character is kept.
  The module applies it to \<open>url.hostname\<close>, which the platform serialises in ASCII. The
  flag \<open>i\<close> of a regular expression without the flag \<open>u\<close> never lets a character outside ASCII
  match an ASCII letter, so the same function serves for it.
\<close>

definition toLowerCase_char :: "char \<Rightarrow> char" where
  "toLowerCase_char c =
     (case map_of (zip ''ABCDEFGHIJKLMNOPQRSTUVWXYZ'' ''abcdefghijklmnopqrstuvwxyz'') c of
        Some l \<Rightarrow> l
      | None \<Rightarrow> c)"

definition toLowerCase :: "string \<Rightarrow> string" where
  "toLowerCase s = map toLowerCase_char s"

text \<open>
  A regular expression anchored with \<open>^\<close> that is a fixed text matches exactly when that
  text is a prefix of the subject; under the flag \<open>i\<close> the ASCII letters are compared
  without regard to case. The result is the rest of the subject after the match.
\<close>

definition match_prefix :: "string \<Rightarrow> string \<Rightarrow> string option" where
  "match_prefix p s = (if take (length p) s = p then Some (drop (length p) s) else None)"

definition match_prefix_i :: "string \<Rightarrow> string \<Rightarrow> string option" where
  "match_prefix_i p s =
     (if toLowerCase (take (length p) s) = toLowerCase p then Some (drop (length p) s) else None)"

subsection \<open>normalizeHostname\<close>

text \<open>\<open>hostname.toLowerCase().replace(/^www\./, '')\<close>: without the flag \<open>g\<close>, one replacement.\<close>

definition normalizeHostname :: "string \<Rightarrow> string" where
  "normalizeHostname hostname' =
     (let lower = toLowerCase hostname' in
      case match_prefix ''www.'' lower of Some rest \<Rightarrow> rest | None \<Rightarrow> lower)"

subsection \<open>normalizeOrigin\<close>

text \<open>
  The fallback of the \<open>catch\<close> clause, \<open>origin.replace(/^(https?:\/\/)www\./i, '$1')\<close>: when the
  subject starts with \<open>http://www.\<close> or \<open>https://www.\<close> in any mix of cases, the match is replaced
  by its first group, the scheme and \<open>://\<close> as the subject spells them; otherwise the subject
  is returned as it is.
\<close>

definition replace_scheme_www :: "string \<Rightarrow> string" where
  "replace_scheme_www s =
     (case match_prefix_i ''https://www.'' s of
        Some rest \<Rightarrow> take 8 s @ rest
      | None \<Rightarrow>
          (case match_prefix_i ''http://www.'' s of
             Some rest \<Rightarrow> take 7 s @ rest
           | None \<Rightarrow> s))"

definition normalizeOrigin :: "(string \<Rightarrow> error + url) \<Rightarrow> string \<Rightarrow> error + string" where
  "normalizeOrigin URL origin' =
     try_catch
       (case URL origin' of
          Inl e \<Rightarrow> Inl e
        | Inr u \<Rightarrow>
            (let normalizedHostname = normalizeHostname (hostname u) in
             Inr (protocol u @ ''//'' @ normalizedHostname @
                  (if port u \<noteq> [] then '':'' @ port u else []))))
       (Inr (replace_scheme_www origin'))"

subsection \<open>findCurrentSiteIndex\<close>

text \<open>
  \<open>Array.prototype.findIndex\<close>: the callback is applied to the elements in order, from index
  \<open>k\<close> on; the index of the first element on which it returns true is the result, \<open>-1\<close> when
  there is none. An exception of the callback ends the scan and propagates.
\<close>

fun findIndex_from :: "('a \<Rightarrow> error + bool) \<Rightarrow> int \<Rightarrow> 'a list \<Rightarrow> error + int" where
  "findIndex_from f k [] = Inr (- 1)"
| "findIndex_from f k (x # xs) =
     (case f x of
        Inl e \<Rightarrow> Inl e
      | Inr b \<Rightarrow> if b then Inr k else findIndex_from f (k + 1) xs)"

definition findIndex :: "('a \<Rightarrow> error + bool) \<Rightarrow> 'a list \<Rightarrow> error + int" where
  "findIndex f xs = findIndex_from f 0 xs"

text \<open>The callback of \<open>findCurrentSiteIndex\<close>, a \<open>try\<close> with a \<open>catch\<close> around two parses.\<close>

definition site_matches :: "(string \<Rightarrow> error + url) \<Rightarrow> string \<Rightarrow> string \<Rightarrow> error + bool" where
  "site_matches URL currentSite site =
     try_catch
       (case URL site of
          Inl e \<Rightarrow> Inl e
        | Inr siteUrl \<Rightarrow>
            (case URL currentSite of
               Inl e \<Rightarrow> Inl e
             | Inr currentUrl \<Rightarrow>
                 (case normalizeOrigin URL (origin siteUrl) of
                    Inl e \<Rightarrow> Inl e
                  | Inr a \<Rightarrow>
                      (case normalizeOrigin URL (origin currentUrl) of
                         Inl e \<Rightarrow> Inl e
                       | Inr b \<Rightarrow> Inr (a = b)))))
       (Inr (site = currentSite))"

definition findCurrentSiteIndex ::
  "(string \<Rightarrow> error + url) \<Rightarrow> string list \<Rightarrow> string \<Rightarrow> error + int" where
  "findCurrentSiteIndex URL sites currentSite = findIndex (site_matches URL currentSite) sites"

subsection \<open>calculateNavigationIndices\<close>

record indices =
  prevIndex :: int
  nextIndex :: int

definition calculateNavigationIndices :: "int \<Rightarrow> int \<Rightarrow> indices" where
  "calculateNavigationIndices currentIndex sitesLength =
     (if currentIndex < 0 then \<lparr>prevIndex = sitesLength - 1, nextIndex = 0\<rparr>
      else \<lparr>prevIndex = (if currentIndex = 0 then sitesLength - 1 else currentIndex - 1),
            nextIndex = (if currentIndex = sitesLength - 1 then 0 else currentIndex + 1)\<rparr>)"

subsection \<open>calculateWebRingNavigation\<close>

text \<open>
  A field of the result holds \<open>null\<close>, a string, or \<open>undefined\<close>, which is what reading an
  array outside its bounds gives in JavaScript.
\<close>

datatype link = Null | Undefined | Site string

text \<open>
  Modelled from the spec: the type \<open>WebRingNavigation\<close> is imported from \<open>../types\<close>, which is
  not among the sources. The spec describes it as a record with the two fields \<open>prev\<close> and
  \<open>next\<close>, each a string or an absent-value marker.
\<close>

record WebRingNavigation =
  prev :: link
  "next" :: link

text \<open>\<open>sites[i]\<close>.\<close>

definition at_index :: "string list \<Rightarrow> int \<Rightarrow> link" where
  "at_index sites i =
     (if 0 \<le> i \<and> i < int (length sites) then Site (sites ! nat i) else Undefined)"

text \<open>
  The ambient location is the argument \<open>window\<close>: \<open>None\<close> where \<open>typeof window\<close> is
  \<open>'undefined'\<close>, and \<open>Some o\<close> where a window exists and \<open>window.location.origin\<close> is \<open>o\<close>.
  The optional parameter \<open>currentSite\<close> is \<open>None\<close> when the caller omits it. The condition
  \<open>if (currentSite)\<close> holds for a string that is not empty.
\<close>

definition calculateWebRingNavigation ::
  "(string \<Rightarrow> error + url) \<Rightarrow> string option \<Rightarrow> string list \<Rightarrow> string option
     \<Rightarrow> error + WebRingNavigation" where
  "calculateWebRingNavigation URL window sites currentSite =
     (if length sites = 0 then Inr \<lparr>prev = Null, next = Null\<rparr>
      else
        (case
           (case currentSite of
              Some c \<Rightarrow>
                if c \<noteq> [] then findCurrentSiteIndex URL sites c
                else (case window of
                        Some w \<Rightarrow> findCurrentSiteIndex URL sites w
                      | None \<Rightarrow> Inr (- 1))
            | None \<Rightarrow>
                (case window of
                   Some w \<Rightarrow> findCurrentSiteIndex URL sites w
                 | None \<Rightarrow> Inr (- 1)))
         of
           Inl e \<Rightarrow> Inl e
         | Inr currentIndex \<Rightarrow>
             (let ix = calculateNavigationIndices currentIndex (int (length sites)) in
              Inr \<lparr>prev = at_index sites (prevIndex ix), next = at_index sites (nextIndex ix)\<rparr>)))"

text \<open>
  The same function with its calls of the position finder and of the wraparound calculator
  recorded, in the order in which the body makes them.
\<close>

datatype call =
  Call_findCurrentSiteIndex "string list" string
| Call_calculateNavigationIndices int int

definition calculateWebRingNavigation_traced ::
  "(string \<Rightarrow> error + url) \<Rightarrow> string option \<Rightarrow> string list \<Rightarrow> string option
     \<Rightarrow> call list \<times> (error + WebRingNavigation)" where
  "calculateWebRingNavigation_traced URL window sites currentSite =
     (if length sites = 0 then ([], Inr \<lparr>prev = Null, next = Null\<rparr>)
      else
        (case
           (case currentSite of
              Some c \<Rightarrow>
                if c \<noteq> []
                then ([Call_findCurrentSiteIndex sites c], findCurrentSiteIndex URL sites c)
                else (case window of
                        Some w \<Rightarrow>
                          ([Call_findCurrentSiteIndex sites w], findCurrentSiteIndex URL sites w)
                      | None \<Rightarrow> ([], Inr (- 1)))
            | None \<Rightarrow>
                (case window of
                   Some w \<Rightarrow>
                     ([Call_findCurrentSiteIndex sites w], findCurrentSiteIndex URL sites w)
                 | None \<Rightarrow> ([], Inr (- 1))))
         of
           (calls, Inl e) \<Rightarrow> (calls, Inl e)
         | (calls, Inr currentIndex) \<Rightarrow>
             (let ix = calculateNavigationIndices currentIndex (int (length sites)) in
              (calls @ [Call_calculateNavigationIndices currentIndex (int (length sites))],
               Inr \<lparr>prev = at_index sites (prevIndex ix),
                    next = at_index sites (nextIndex ix)\<rparr>))))"

text \<open>
  Lines 87 to 92 of the source as a function of \<open>currentIndex\<close>: the result that the body
  builds from a position.
\<close>

definition navigation_at :: "string list \<Rightarrow> int \<Rightarrow> WebRingNavigation" where
  "navigation_at sites currentIndex =
     (let ix = calculateNavigationIndices currentIndex (int (length sites)) in
      \<lparr>prev = at_index sites (prevIndex ix), next = at_index sites (nextIndex ix)\<rparr>)"

text \<open>
  Following the spec's words (section 4.4), for comparison with the code: the effective
  current site is the explicit argument if provided and non-empty, otherwise the ambient
  location if the environment exposes one, otherwise undetermined.
\<close>

definition effective_site :: "string option \<Rightarrow> string option \<Rightarrow> string option" where
  "effective_site window currentSite =
     (case currentSite of
        Some c \<Rightarrow> if c \<noteq> [] then Some c else window
      | None \<Rightarrow> window)"

text \<open>Normalising the output of a normalisation, an exception of the first ending both.\<close>

definition normalizeOrigin_twice :: "(string \<Rightarrow> error + url) \<Rightarrow> string \<Rightarrow> error + string" where
  "normalizeOrigin_twice URL s =
     (case normalizeOrigin URL s of Inl e \<Rightarrow> Inl e | Inr t \<Rightarrow> normalizeOrigin URL t)"

subsection \<open>A fragment of the platform's URL parser\<close>

text \<open>
  To evaluate the module on concrete strings, \<open>new_URL\<close> gives the constructor on the URLs
  \<open>scheme://host\<close>, \<open>scheme://host:port\<close> and either of them followed by a path, a query or
  a fragment, where the scheme is \<open>http\<close> or \<open>https\<close> in any mix of cases, the host is made of
  labels of ASCII letters, digits and hyphens separated by single dots, its last label starts
  with a letter, no label starts with \<open>xn--\<close>, and the port is a string of digits. On these
  the URL standard lower-cases scheme and host, reads the port as a decimal number, fails when
  it exceeds 65535, and drops it when it is the default of the scheme (80 for \<open>http\<close>, 443 for
  \<open>https\<close>). On every other string \<open>new_URL\<close> reports failure; the platform accepts more
  (other schemes, credentials, IP addresses, internationalised names, surrounding blanks), so
  a statement about \<open>new_URL\<close> speaks for the platform on the strings that \<open>new_URL\<close> parses
  and on the failures used below, \<open>not a url\<close> (no scheme) and \<open>HTTP://WWW.a b\<close>,
  \<open>HTTP://a b\<close> (a blank in the host), which the URL standard rejects as well.
\<close>

definition is_digit :: "char \<Rightarrow> bool" where
  "is_digit c = (c \<in> set ''0123456789'')"

definition is_alpha :: "char \<Rightarrow> bool" where
  "is_alpha c = (toLowerCase_char c \<in> set ''abcdefghijklmnopqrstuvwxyz'')"

fun split_on :: "char \<Rightarrow> string \<Rightarrow> string list" where
  "split_on d [] = [[]]"
| "split_on d (c # cs) =
     (if c = d then [] # split_on d cs
      else (case split_on d cs of l # ls \<Rightarrow> (c # l) # ls | [] \<Rightarrow> [[c]]))"

definition plain_label :: "string \<Rightarrow> bool" where
  "plain_label l =
     (l \<noteq> [] \<and> list_all (\<lambda>c. is_alpha c \<or> is_digit c \<or> c = CHR ''-'') l \<and>
      match_prefix_i ''xn--'' l = None)"

definition plain_domain :: "string \<Rightarrow> bool" where
  "plain_domain h =
     (let ls = split_on CHR ''.'' h in list_all plain_label ls \<and> is_alpha (hd (last ls)))"

definition digit_value :: "char \<Rightarrow> nat" where
  "digit_value c =
     (case map_of (zip ''0123456789'' [0, 1, 2, 3, 4, 5, 6, 7, 8, 9]) c of
        Some d \<Rightarrow> d
      | None \<Rightarrow> 0)"

definition digits_to_nat :: "string \<Rightarrow> nat" where
  "digits_to_nat ds = foldl (\<lambda>n c. 10 * n + digit_value c) 0 ds"

fun nat_to_digits :: "nat \<Rightarrow> string" where
  "nat_to_digits n =
     (if n < 10 then [''0123456789'' ! n]
      else nat_to_digits (n div 10) @ [''0123456789'' ! (n mod 10)])"

declare nat_to_digits.simps [simp del]

definition new_URL_scheme :: "string \<Rightarrow> nat \<Rightarrow> string \<Rightarrow> error + url" where
  "new_URL_scheme scheme defaultPort rest =
     (let authority = takeWhile (\<lambda>c. c \<noteq> CHR ''/'' \<and> c \<noteq> CHR ''?'' \<and> c \<noteq> CHR ''#'') rest;
          host = takeWhile (\<lambda>c. c \<noteq> CHR '':'') authority;
          digits = drop (length host + 1) authority
      in
        if \<not> plain_domain host \<or> \<not> list_all is_digit digits \<or> 65535 < digits_to_nat digits
        then Inl TypeError
        else
          (let p = (if digits = [] \<or> digits_to_nat digits = defaultPort then []
                    else nat_to_digits (digits_to_nat digits));
               h = toLowerCase host
           in Inr \<lparr>protocol = scheme @ '':'', hostname = h, port = p,
                    origin = scheme @ ''://'' @ h @ (if p = [] then [] else '':'' @ p)\<rparr>))"

definition new_URL :: "string \<Rightarrow> error + url" where
  "new_URL s =
     (case match_prefix_i ''https://'' s of
        Some rest \<Rightarrow> new_URL_scheme ''https'' 443 rest
      | None \<Rightarrow>
          (case match_prefix_i ''http://'' s of
             Some rest \<Rightarrow> new_URL_scheme ''http'' 80 rest
           | None \<Rightarrow> Inl TypeError))"

section \<open>Properties\<close>

subsection \<open>No exception leaves the position finder\<close>

lemma normalizeOrigin_parsed:
  "URL s = Inr u \<Longrightarrow>
   normalizeOrigin URL s =
     Inr (protocol u @ ''//'' @ normalizeHostname (hostname u) @
          (if port u \<noteq> [] then '':'' @ port u else []))"
  by (simp add: normalizeOrigin_def try_catch_def)

lemma normalizeOrigin_fallback:
  "URL s = Inl e \<Longrightarrow> normalizeOrigin URL s = Inr (replace_scheme_www s)"
  by (simp add: normalizeOrigin_def try_catch_def)

lemma normalizeOrigin_returns: "\<exists>t. normalizeOrigin URL s = Inr t"
  by (cases "URL s") (simp_all add: normalizeOrigin_parsed normalizeOrigin_fallback)

lemma site_matches_entry_fails:
  "URL site = Inl e \<Longrightarrow> site_matches URL currentSite site = Inr (site = currentSite)"
  by (simp add: site_matches_def try_catch_def)

lemma site_matches_current_fails:
  "URL currentSite = Inl e \<Longrightarrow> site_matches URL currentSite site = Inr (site = currentSite)"
  by (simp add: site_matches_def try_catch_def split: sum.splits)

lemma site_matches_returns: "\<exists>b. site_matches URL currentSite site = Inr b"
proof (cases "URL site")
  case (Inl e)
  then show ?thesis by (simp add: site_matches_entry_fails)
next
  case site: (Inr siteUrl)
  show ?thesis
  proof (cases "URL currentSite")
    case (Inl e)
    then show ?thesis by (simp add: site_matches_current_fails)
  next
    case (Inr currentUrl)
    obtain a where a: "normalizeOrigin URL (origin siteUrl) = Inr a"
      using normalizeOrigin_returns by blast
    obtain b where b: "normalizeOrigin URL (origin currentUrl) = Inr b"
      using normalizeOrigin_returns by blast
    from site Inr a b show ?thesis
      by (simp add: site_matches_def try_catch_def)
  qed
qed

lemma findIndex_from_range:
  assumes "\<And>x. \<exists>b. f x = Inr b"
  shows "\<exists>i. findIndex_from f k xs = Inr i \<and> (i = - 1 \<or> (k \<le> i \<and> i < k + int (length xs)))"
proof (induction xs arbitrary: k)
  case Nil
  show ?case by simp
next
  case (Cons x xs)
  obtain b where b: "f x = Inr b" using assms by blast
  show ?case
  proof (cases b)
    case True
    with b show ?thesis by simp
  next
    case False
    from Cons.IH [of "k + 1"] obtain i where
      "findIndex_from f (k + 1) xs = Inr i" "i = - 1 \<or> (k + 1 \<le> i \<and> i < k + 1 + int (length xs))"
      by blast
    with b False show ?thesis by auto
  qed
qed

lemma findCurrentSiteIndex_range:
  "\<exists>i. findCurrentSiteIndex URL sites c = Inr i \<and> - 1 \<le> i \<and> i < int (length sites)"
  using findIndex_from_range [of "site_matches URL c" 0 sites, OF site_matches_returns]
  by (auto simp: findCurrentSiteIndex_def findIndex_def)

subsection \<open>The indices stay inside the list\<close>

lemma calculateNavigationIndices_range:
  assumes "0 < n" "- 1 \<le> i" "i < n"
  shows "0 \<le> prevIndex (calculateNavigationIndices i n) \<and>
         prevIndex (calculateNavigationIndices i n) < n \<and>
         0 \<le> nextIndex (calculateNavigationIndices i n) \<and>
         nextIndex (calculateNavigationIndices i n) < n"
  using assms by (simp add: calculateNavigationIndices_def)

lemma at_index_member:
  "0 \<le> i \<Longrightarrow> i < int (length sites) \<Longrightarrow> \<exists>x. at_index sites i = Site x \<and> x \<in> set sites"
  by (simp add: at_index_def)

lemma calculateWebRingNavigation_unfold:
  "sites \<noteq> [] \<Longrightarrow>
   calculateWebRingNavigation URL window sites currentSite =
     (case (case effective_site window currentSite of
              Some s \<Rightarrow> findCurrentSiteIndex URL sites s
            | None \<Rightarrow> Inr (- 1)) of
        Inl e \<Rightarrow> Inl e
      | Inr i \<Rightarrow>
          Inr \<lparr>prev = at_index sites (prevIndex (calculateNavigationIndices i (int (length sites)))),
               next = at_index sites (nextIndex (calculateNavigationIndices i (int (length sites))))\<rparr>)"
  by (simp add: calculateWebRingNavigation_def effective_site_def Let_def
      split: option.splits sum.splits)

lemma current_index_range:
  "\<exists>i. (case effective_site window currentSite of
           Some s \<Rightarrow> findCurrentSiteIndex URL sites s
         | None \<Rightarrow> Inr (- 1)) = Inr i \<and> - 1 \<le> i \<and> i < int (length sites)"
  using findCurrentSiteIndex_range by (cases "effective_site window currentSite") auto

text \<open>
  C1. For a non-empty site list and every current-site value, explicit or ambient,
  well-formed or not, present or absent, the result has both \<open>prev\<close> and \<open>next\<close> present,
  and each is an element of the list. This holds for every behaviour of the URL parser.
\<close>

theorem calculateWebRingNavigation_members:
  assumes "sites \<noteq> []"
  shows "\<exists>p n. calculateWebRingNavigation URL window sites currentSite =
                 Inr \<lparr>prev = Site p, next = Site n\<rparr> \<and>
               p \<in> set sites \<and> n \<in> set sites"
proof -
  obtain i where i:
    "(case effective_site window currentSite of
        Some s \<Rightarrow> findCurrentSiteIndex URL sites s
      | None \<Rightarrow> Inr (- 1)) = Inr i"
    and range: "- 1 \<le> i" "i < int (length sites)"
    using current_index_range by blast
  from assms have pos: "0 < int (length sites)" by simp
  note r = calculateNavigationIndices_range [OF pos range]
  from r obtain p where p:
    "at_index sites (prevIndex (calculateNavigationIndices i (int (length sites)))) = Site p"
    "p \<in> set sites"
    using at_index_member by blast
  from r obtain n where n:
    "at_index sites (nextIndex (calculateNavigationIndices i (int (length sites)))) = Site n"
    "n \<in> set sites"
    using at_index_member by blast
  from assms i p n show ?thesis
    by (simp add: calculateWebRingNavigation_unfold)
qed

subsection \<open>Evaluating the functions on explicit strings\<close>

lemmas string_eval =
  toLowerCase_def toLowerCase_char_def match_prefix_def match_prefix_i_def Let_def

lemmas new_URL_eval =
  string_eval is_digit_def is_alpha_def plain_label_def plain_domain_def digit_value_def
  digits_to_nat_def new_URL_scheme_def new_URL_def nat_to_digits.simps

lemma new_URL_a:
  "new_URL ''https://a.example'' =
     Inr \<lparr>protocol = ''https:'', hostname = ''a.example'', port = [], origin = ''https://a.example''\<rparr>"
  by (simp add: new_URL_eval)

lemma new_URL_b:
  "new_URL ''https://b.example'' =
     Inr \<lparr>protocol = ''https:'', hostname = ''b.example'', port = [], origin = ''https://b.example''\<rparr>"
  by (simp add: new_URL_eval)

lemma new_URL_c:
  "new_URL ''https://c.example'' =
     Inr \<lparr>protocol = ''https:'', hostname = ''c.example'', port = [], origin = ''https://c.example''\<rparr>"
  by (simp add: new_URL_eval)

lemma new_URL_d:
  "new_URL ''https://d.example'' =
     Inr \<lparr>protocol = ''https:'', hostname = ''d.example'', port = [], origin = ''https://d.example''\<rparr>"
  by (simp add: new_URL_eval)

lemma new_URL_www_b:
  "new_URL ''https://www.b.example'' =
     Inr \<lparr>protocol = ''https:'', hostname = ''www.b.example'', port = [],
          origin = ''https://www.b.example''\<rparr>"
  by (simp add: new_URL_eval)

lemma normalizeOrigin_a: "normalizeOrigin new_URL ''https://a.example'' = Inr ''https://a.example''"
  by (simp add: normalizeOrigin_parsed [where URL = new_URL, OF new_URL_a] normalizeHostname_def string_eval)

lemma normalizeOrigin_b: "normalizeOrigin new_URL ''https://b.example'' = Inr ''https://b.example''"
  by (simp add: normalizeOrigin_parsed [where URL = new_URL, OF new_URL_b] normalizeHostname_def string_eval)

lemma normalizeOrigin_c: "normalizeOrigin new_URL ''https://c.example'' = Inr ''https://c.example''"
  by (simp add: normalizeOrigin_parsed [where URL = new_URL, OF new_URL_c] normalizeHostname_def string_eval)

lemma normalizeOrigin_d: "normalizeOrigin new_URL ''https://d.example'' = Inr ''https://d.example''"
  by (simp add: normalizeOrigin_parsed [where URL = new_URL, OF new_URL_d] normalizeHostname_def string_eval)

lemma normalizeOrigin_www_b:
  "normalizeOrigin new_URL ''https://www.b.example'' = Inr ''https://b.example''"
  by (simp add: normalizeOrigin_parsed [where URL = new_URL, OF new_URL_www_b] normalizeHostname_def string_eval)

lemma site_matches_parsed:
  "URL site = Inr siteUrl \<Longrightarrow> URL currentSite = Inr currentUrl \<Longrightarrow>
   normalizeOrigin URL (origin siteUrl) = Inr a \<Longrightarrow>
   normalizeOrigin URL (origin currentUrl) = Inr b \<Longrightarrow>
   site_matches URL currentSite site = Inr (a = b)"
  by (simp add: site_matches_def try_catch_def)

lemma find_a: "findCurrentSiteIndex new_URL
     [''https://a.example'', ''https://b.example'', ''https://c.example''] ''https://a.example'' = Inr 0"
  by (simp add: findCurrentSiteIndex_def findIndex_def
      site_matches_parsed [where URL = new_URL, OF new_URL_a new_URL_a] normalizeOrigin_a)

lemma find_c: "findCurrentSiteIndex new_URL
     [''https://a.example'', ''https://b.example'', ''https://c.example''] ''https://c.example'' = Inr 2"
  by (simp add: findCurrentSiteIndex_def findIndex_def
      site_matches_parsed [where URL = new_URL, OF new_URL_a new_URL_c] site_matches_parsed [where URL = new_URL, OF new_URL_b new_URL_c]
      site_matches_parsed [where URL = new_URL, OF new_URL_c new_URL_c]
      normalizeOrigin_a normalizeOrigin_b normalizeOrigin_c)

lemma find_d: "findCurrentSiteIndex new_URL
     [''https://a.example'', ''https://b.example'', ''https://c.example''] ''https://d.example'' = Inr (- 1)"
  by (simp add: findCurrentSiteIndex_def findIndex_def
      site_matches_parsed [where URL = new_URL, OF new_URL_a new_URL_d] site_matches_parsed [where URL = new_URL, OF new_URL_b new_URL_d]
      site_matches_parsed [where URL = new_URL, OF new_URL_c new_URL_d]
      normalizeOrigin_a normalizeOrigin_b normalizeOrigin_c normalizeOrigin_d)

theorem calculateWebRingNavigation_members_witness:
  "[''https://a.example'', ''https://b.example''] \<noteq> [] \<and>
   (\<exists>p n. calculateWebRingNavigation new_URL None [''https://a.example'', ''https://b.example'']
             (Some ''not a url'') = Inr \<lparr>prev = Site p, next = Site n\<rparr> \<and>
          p \<in> set [''https://a.example'', ''https://b.example''] \<and>
          n \<in> set [''https://a.example'', ''https://b.example''])"
  using calculateWebRingNavigation_members
    [of "[''https://a.example'', ''https://b.example'']" new_URL None "Some ''not a url''"]
  by simp

lemma calculateWebRingNavigation_traced_result:
  "snd (calculateWebRingNavigation_traced URL window sites currentSite) =
     calculateWebRingNavigation URL window sites currentSite"
  by (simp add: calculateWebRingNavigation_traced_def calculateWebRingNavigation_def Let_def
      split: option.splits sum.splits)

text \<open>
  C2. For the empty site list and every current-site value and ambient location, the result
  is \<open>{ prev: null, next: null }\<close>, and the body calls neither the position finder nor the
  wraparound calculator.
\<close>

theorem calculateWebRingNavigation_empty:
  "calculateWebRingNavigation URL window [] currentSite = Inr \<lparr>prev = Null, next = Null\<rparr> \<and>
   calculateWebRingNavigation_traced URL window [] currentSite =
     ([], Inr \<lparr>prev = Null, next = Null\<rparr>)"
  by (simp add: calculateWebRingNavigation_def calculateWebRingNavigation_traced_def)

lemma navigation_at_position:
  assumes "sites \<noteq> []" "effective_site window currentSite = Some s"
    "findCurrentSiteIndex URL sites s = Inr i"
  shows "calculateWebRingNavigation URL window sites currentSite =
     Inr \<lparr>prev = at_index sites (prevIndex (calculateNavigationIndices i (int (length sites)))),
          next = at_index sites (nextIndex (calculateNavigationIndices i (int (length sites))))\<rparr>"
  using assms by (simp add: calculateWebRingNavigation_unfold)

lemma navigation_undetermined:
  assumes "sites \<noteq> []" "effective_site window currentSite = None"
  shows "calculateWebRingNavigation URL window sites currentSite =
     Inr \<lparr>prev = at_index sites (prevIndex (calculateNavigationIndices (- 1) (int (length sites)))),
          next = at_index sites (nextIndex (calculateNavigationIndices (- 1) (int (length sites))))\<rparr>"
  using assms by (simp add: calculateWebRingNavigation_unfold)

subsection \<open>The first match wins\<close>

text \<open>
  The scan stops at the first entry that matches. Entries are compared by origin, so of two
  entries of one origin only the first is ever found: here the current site is the third
  entry, and the finder returns the position of the first.
\<close>

lemma findCurrentSiteIndex_first_match:
  "site_matches URL c x = Inr True \<Longrightarrow> findCurrentSiteIndex URL (x # xs) c = Inr 0"
  by (simp add: findCurrentSiteIndex_def findIndex_def)

lemma new_URL_a_x:
  "new_URL ''https://a.example/x'' =
     Inr \<lparr>protocol = ''https:'', hostname = ''a.example'', port = [], origin = ''https://a.example''\<rparr>"
  by (simp add: new_URL_eval)

lemma new_URL_a_y:
  "new_URL ''https://a.example/y'' =
     Inr \<lparr>protocol = ''https:'', hostname = ''a.example'', port = [], origin = ''https://a.example''\<rparr>"
  by (simp add: new_URL_eval)

lemma same_origin_first_match:
  "findCurrentSiteIndex new_URL
     [''https://a.example/x'', ''https://b.example'', ''https://a.example/y'']
     ''https://a.example/y'' = Inr 0"
  using site_matches_parsed [where URL = new_URL, OF new_URL_a_x new_URL_a_y]
  by (simp add: findCurrentSiteIndex_first_match normalizeOrigin_a)

lemma site_matches_same: "site_matches URL s s = Inr True"
proof (cases "URL s")
  case (Inl e)
  then show ?thesis by (simp add: site_matches_entry_fails)
next
  case (Inr u)
  obtain a where "normalizeOrigin URL (origin u) = Inr a"
    using normalizeOrigin_returns by blast
  with Inr show ?thesis
    by (simp add: site_matches_def try_catch_def)
qed

lemma three_entries: "length xs = 3 \<Longrightarrow> xs = [xs ! 0, xs ! 1, xs ! 2]"
  by (auto simp: numeral_3_eq_3 length_Suc_conv)

lemma findCurrentSiteIndex_third:
  assumes "site_matches URL s x0 = Inr False" "site_matches URL s x1 = Inr False"
    "site_matches URL s x2 = Inr True"
  shows "findCurrentSiteIndex URL [x0, x1, x2] s = Inr 2"
  using assms by (simp add: findCurrentSiteIndex_def findIndex_def)

lemma new_URL_www_a:
  "new_URL ''https://www.a.example'' =
     Inr \<lparr>protocol = ''https:'', hostname = ''www.a.example'', port = [],
          origin = ''https://www.a.example''\<rparr>"
  by (simp add: new_URL_eval)

lemma normalizeOrigin_www_a:
  "normalizeOrigin new_URL ''https://www.a.example'' = Inr ''https://a.example''"
  by (simp add: normalizeOrigin_parsed [where URL = new_URL, OF new_URL_www_a]
      normalizeHostname_def string_eval)

lemma find_www_a:
  "findCurrentSiteIndex new_URL
     [''https://a.example'', ''https://b.example'', ''https://www.a.example'']
     ''https://www.a.example'' = Inr 0"
  using site_matches_parsed [where URL = new_URL, OF new_URL_a new_URL_www_a]
  by (simp add: findCurrentSiteIndex_first_match normalizeOrigin_a normalizeOrigin_www_a)

text \<open>
  C3 as stated fails where an earlier entry matches too. The three entries below are
  distinct strings; the current site is the third entry, and it matches the first, which
  differs from it by \<open>www.\<close> only. The finder returns position 0, so \<open>prev\<close> is the third
  entry and \<open>next\<close> the second, not the second and the first.
\<close>

theorem wraparound_first_match_wins:
  "site_matches new_URL ''https://www.a.example''
     ([''https://a.example'', ''https://b.example'', ''https://www.a.example''] ! 2) = Inr True \<and>
   calculateWebRingNavigation new_URL None
     [''https://a.example'', ''https://b.example'', ''https://www.a.example'']
     (Some ''https://www.a.example'') =
     Inr \<lparr>prev = Site ''https://www.a.example'', next = Site ''https://b.example''\<rparr> \<and>
   calculateWebRingNavigation new_URL None
     [''https://a.example'', ''https://b.example'', ''https://www.a.example'']
     (Some ''https://www.a.example'') \<noteq>
     Inr \<lparr>prev = Site ([''https://a.example'', ''https://b.example'', ''https://www.a.example''] ! 1),
          next = Site ([''https://a.example'', ''https://b.example'', ''https://www.a.example''] ! 0)\<rparr>"
proof -
  let ?L = "[''https://a.example'', ''https://b.example'', ''https://www.a.example'']"
  have ne: "?L \<noteq> []" by simp
  have eff: "effective_site None (Some ''https://www.a.example'') = Some ''https://www.a.example''"
    by (simp add: effective_site_def)
  from navigation_at_position [OF ne eff find_www_a]
  have "calculateWebRingNavigation new_URL None ?L (Some ''https://www.a.example'') =
     Inr \<lparr>prev = Site ''https://www.a.example'', next = Site ''https://b.example''\<rparr>"
    by (simp add: calculateNavigationIndices_def at_index_def)
  then show ?thesis by (simp add: site_matches_same)
qed

text \<open>
  C3, amended. For a list length \<open>n > 0\<close> and a position \<open>p\<close> with \<open>0 \<le> p < n\<close>, the
  wraparound calculator returns the previous index \<open>p - 1\<close>, wrapping to \<open>n - 1\<close> at \<open>p = 0\<close>,
  and the next index \<open>p + 1\<close>, wrapping to \<open>0\<close> at \<open>p = n - 1\<close>; these are \<open>p - 1\<close> and
  \<open>p + 1\<close> modulo \<open>n\<close>. In particular, for a list of three entries: when the current site
  matches entry 0, \<open>prev\<close> is entry 2 and \<open>next\<close> is entry 1; when it matches entry 2 and
  neither entry 0 nor entry 1, \<open>prev\<close> is entry 1 and \<open>next\<close> is entry 0. The current site
  is the explicit argument or the ambient location; it matches an entry when the callback of
  the position finder returns true on it, as it does on an entry equal to the current site.
\<close>

theorem calculateNavigationIndices_wraparound:
  "(0 \<le> p \<and> p < n \<longrightarrow>
      calculateNavigationIndices p n =
        \<lparr>prevIndex = (if p = 0 then n - 1 else p - 1),
         nextIndex = (if p = n - 1 then 0 else p + 1)\<rparr> \<and>
      prevIndex (calculateNavigationIndices p n) = (p - 1) mod n \<and>
      nextIndex (calculateNavigationIndices p n) = (p + 1) mod n) \<and>
   (length sites = 3 \<and> effective_site window currentSite = Some s \<and>
    site_matches URL s (sites ! 0) = Inr True \<longrightarrow>
      calculateWebRingNavigation URL window sites currentSite =
        Inr \<lparr>prev = Site (sites ! 2), next = Site (sites ! 1)\<rparr>) \<and>
   (length sites = 3 \<and> effective_site window currentSite = Some s \<and>
    site_matches URL s (sites ! 2) = Inr True \<and>
    site_matches URL s (sites ! 0) = Inr False \<and> site_matches URL s (sites ! 1) = Inr False \<longrightarrow>
      calculateWebRingNavigation URL window sites currentSite =
        Inr \<lparr>prev = Site (sites ! 1), next = Site (sites ! 0)\<rparr>) \<and>
   site_matches URL s s = Inr True"
proof (intro conjI impI)
  assume p: "0 \<le> p \<and> p < n"
  then show "calculateNavigationIndices p n =
        \<lparr>prevIndex = (if p = 0 then n - 1 else p - 1),
         nextIndex = (if p = n - 1 then 0 else p + 1)\<rparr>"
    by (simp add: calculateNavigationIndices_def)
  from p show "prevIndex (calculateNavigationIndices p n) = (p - 1) mod n"
    by (auto simp: calculateNavigationIndices_def zmod_minus1)
  from p show "nextIndex (calculateNavigationIndices p n) = (p + 1) mod n"
    by (auto simp: calculateNavigationIndices_def)
next
  assume h: "length sites = 3 \<and> effective_site window currentSite = Some s \<and>
    site_matches URL s (sites ! 0) = Inr True"
  then have ne: "sites \<noteq> []" by auto
  from h have eff: "effective_site window currentSite = Some s" by simp
  from h three_entries [of sites] have "sites = sites ! 0 # [sites ! 1, sites ! 2]" by simp
  with h findCurrentSiteIndex_first_match [of URL s "sites ! 0" "[sites ! 1, sites ! 2]"]
  have found: "findCurrentSiteIndex URL sites s = Inr 0" by simp
  from navigation_at_position [OF ne eff found] h
  show "calculateWebRingNavigation URL window sites currentSite =
        Inr \<lparr>prev = Site (sites ! 2), next = Site (sites ! 1)\<rparr>"
    by (simp add: calculateNavigationIndices_def at_index_def)
next
  assume h: "length sites = 3 \<and> effective_site window currentSite = Some s \<and>
    site_matches URL s (sites ! 2) = Inr True \<and>
    site_matches URL s (sites ! 0) = Inr False \<and> site_matches URL s (sites ! 1) = Inr False"
  then have ne: "sites \<noteq> []" by auto
  from h have eff: "effective_site window currentSite = Some s" by simp
  from h three_entries [of sites] have "sites = [sites ! 0, sites ! 1, sites ! 2]" by simp
  with h findCurrentSiteIndex_third [of URL s "sites ! 0" "sites ! 1" "sites ! 2"]
  have found: "findCurrentSiteIndex URL sites s = Inr 2" by simp
  from navigation_at_position [OF ne eff found] h
  show "calculateWebRingNavigation URL window sites currentSite =
        Inr \<lparr>prev = Site (sites ! 1), next = Site (sites ! 0)\<rparr>"
    by (simp add: calculateNavigationIndices_def at_index_def)
next
  show "site_matches URL s s = Inr True" by (rule site_matches_same)
qed

lemma matches_c_a: "site_matches new_URL ''https://c.example'' ''https://a.example'' = Inr False"
  using site_matches_parsed [where URL = new_URL, OF new_URL_a new_URL_c]
  by (simp add: normalizeOrigin_a normalizeOrigin_c)

lemma matches_c_b: "site_matches new_URL ''https://c.example'' ''https://b.example'' = Inr False"
  using site_matches_parsed [where URL = new_URL, OF new_URL_b new_URL_c]
  by (simp add: normalizeOrigin_b normalizeOrigin_c)

theorem calculateNavigationIndices_wraparound_witness:
  "(0::int) \<le> 0 \<and> (0::int) < 3 \<and>
   calculateNavigationIndices 0 3 = \<lparr>prevIndex = 2, nextIndex = 1\<rparr> \<and>
   calculateNavigationIndices 2 3 = \<lparr>prevIndex = 1, nextIndex = 0\<rparr> \<and>
   length [''https://a.example'', ''https://b.example'', ''https://c.example''] = 3 \<and>
   effective_site None (Some ''https://a.example'') = Some ''https://a.example'' \<and>
   site_matches new_URL ''https://a.example''
     ([''https://a.example'', ''https://b.example'', ''https://c.example''] ! 0) = Inr True \<and>
   calculateWebRingNavigation new_URL None
     [''https://a.example'', ''https://b.example'', ''https://c.example''] (Some ''https://a.example'') =
     Inr \<lparr>prev = Site ''https://c.example'', next = Site ''https://b.example''\<rparr> \<and>
   effective_site None (Some ''https://c.example'') = Some ''https://c.example'' \<and>
   site_matches new_URL ''https://c.example''
     ([''https://a.example'', ''https://b.example'', ''https://c.example''] ! 2) = Inr True \<and>
   site_matches new_URL ''https://c.example''
     ([''https://a.example'', ''https://b.example'', ''https://c.example''] ! 0) = Inr False \<and>
   site_matches new_URL ''https://c.example''
     ([''https://a.example'', ''https://b.example'', ''https://c.example''] ! 1) = Inr False \<and>
   calculateWebRingNavigation new_URL None
     [''https://a.example'', ''https://b.example'', ''https://c.example''] (Some ''https://c.example'') =
     Inr \<lparr>prev = Site ''https://b.example'', next = Site ''https://a.example''\<rparr>"
proof -
  let ?L = "[''https://a.example'', ''https://b.example'', ''https://c.example'']"
  have ea: "effective_site None (Some ''https://a.example'') = Some ''https://a.example''"
    by (simp add: effective_site_def)
  have ec: "effective_site None (Some ''https://c.example'') = Some ''https://c.example''"
    by (simp add: effective_site_def)
  have len: "length ?L = 3" by simp
  have ma: "site_matches new_URL ''https://a.example'' (?L ! 0) = Inr True"
    by (simp add: site_matches_same)
  have mc: "site_matches new_URL ''https://c.example'' (?L ! 2) = Inr True"
    "site_matches new_URL ''https://c.example'' (?L ! 0) = Inr False"
    "site_matches new_URL ''https://c.example'' (?L ! 1) = Inr False"
    by (simp_all add: site_matches_same matches_c_a matches_c_b)
  note w0 = calculateNavigationIndices_wraparound
    [of 0 3 ?L None "Some ''https://a.example''" "''https://a.example''" new_URL]
  note w2 = calculateNavigationIndices_wraparound
    [of 2 3 ?L None "Some ''https://c.example''" "''https://c.example''" new_URL]
  from w0 have i0: "calculateNavigationIndices 0 3 = \<lparr>prevIndex = 2, nextIndex = 1\<rparr>" by simp
  from w2 have i2: "calculateNavigationIndices 2 3 = \<lparr>prevIndex = 1, nextIndex = 0\<rparr>" by simp
  from w0 len ea ma have n0: "calculateWebRingNavigation new_URL None ?L (Some ''https://a.example'') =
     Inr \<lparr>prev = Site ''https://c.example'', next = Site ''https://b.example''\<rparr>"
    by simp
  from w2 len ec mc have n2: "calculateWebRingNavigation new_URL None ?L (Some ''https://c.example'') =
     Inr \<lparr>prev = Site ''https://b.example'', next = Site ''https://a.example''\<rparr>"
    by simp
  from i0 i2 n0 n2 ea ec ma mc show ?thesis by simp
qed

subsection \<open>The hub case\<close>

lemma at_index_last: "sites \<noteq> [] \<Longrightarrow> at_index sites (int (length sites) - 1) = Site (last sites)"
  by (simp add: at_index_def last_conv_nth nat_diff_distrib')

lemma at_index_first: "sites \<noteq> [] \<Longrightarrow> at_index sites 0 = Site (hd sites)"
  by (simp add: at_index_def hd_conv_nth)

lemma hub_result:
  "sites \<noteq> [] \<Longrightarrow>
   \<lparr>prev = at_index sites (prevIndex (calculateNavigationIndices (- 1) (int (length sites)))),
    next = at_index sites (nextIndex (calculateNavigationIndices (- 1) (int (length sites))))\<rparr> =
   \<lparr>prev = Site (last sites), next = Site (hd sites)\<rparr>"
  by (simp add: calculateNavigationIndices_def at_index_last at_index_first)

text \<open>
  C4. For a non-empty site list, when the position is the sentinel \<open>-1\<close>, because the
  position finder does not find the current site or because no current site is determined,
  \<open>prev\<close> is the last entry and \<open>next\<close> is the first. On \<open>-1\<close> the wraparound calculator
  returns the last index and index 0.
\<close>

theorem calculateWebRingNavigation_hub:
  "calculateNavigationIndices (- 1) n = \<lparr>prevIndex = n - 1, nextIndex = 0\<rparr> \<and>
   (sites \<noteq> [] \<and>
    (effective_site window currentSite = None \<or>
     (\<exists>s. effective_site window currentSite = Some s \<and>
          findCurrentSiteIndex URL sites s = Inr (- 1))) \<longrightarrow>
    calculateWebRingNavigation URL window sites currentSite =
      Inr \<lparr>prev = Site (last sites), next = Site (hd sites)\<rparr>)"
proof (intro conjI impI)
  show "calculateNavigationIndices (- 1) n = \<lparr>prevIndex = n - 1, nextIndex = 0\<rparr>"
    by (simp add: calculateNavigationIndices_def)
next
  assume h: "sites \<noteq> [] \<and>
    (effective_site window currentSite = None \<or>
     (\<exists>s. effective_site window currentSite = Some s \<and>
          findCurrentSiteIndex URL sites s = Inr (- 1)))"
  then have ne: "sites \<noteq> []" by simp
  from h consider (undetermined) "effective_site window currentSite = None"
    | (not_found) s where "effective_site window currentSite = Some s"
        "findCurrentSiteIndex URL sites s = Inr (- 1)"
    by auto
  then show "calculateWebRingNavigation URL window sites currentSite =
      Inr \<lparr>prev = Site (last sites), next = Site (hd sites)\<rparr>"
  proof cases
    case undetermined
    with ne show ?thesis
      by (simp add: navigation_undetermined hub_result)
  next
    case not_found
    with ne show ?thesis
      by (simp add: navigation_at_position [where s = s and i = "- 1"] hub_result)
  qed
qed

theorem calculateWebRingNavigation_hub_witness:
  "[''https://a.example'', ''https://b.example'', ''https://c.example''] \<noteq> [] \<and>
   effective_site None (Some ''https://d.example'') = Some ''https://d.example'' \<and>
   findCurrentSiteIndex new_URL
     [''https://a.example'', ''https://b.example'', ''https://c.example''] ''https://d.example'' =
     Inr (- 1) \<and>
   calculateWebRingNavigation new_URL None
     [''https://a.example'', ''https://b.example'', ''https://c.example''] (Some ''https://d.example'') =
     Inr \<lparr>prev = Site ''https://c.example'', next = Site ''https://a.example''\<rparr> \<and>
   effective_site None None = None \<and>
   calculateWebRingNavigation new_URL None
     [''https://a.example'', ''https://b.example'', ''https://c.example''] None =
     Inr \<lparr>prev = Site ''https://c.example'', next = Site ''https://a.example''\<rparr>"
proof -
  let ?L = "[''https://a.example'', ''https://b.example'', ''https://c.example'']"
  have ed: "effective_site None (Some ''https://d.example'') = Some ''https://d.example''"
    by (simp add: effective_site_def)
  have en: "effective_site None None = None"
    by (simp add: effective_site_def)
  from calculateWebRingNavigation_hub [of 3 ?L None "Some ''https://d.example''" new_URL] ed find_d
  have "calculateWebRingNavigation new_URL None ?L (Some ''https://d.example'') =
     Inr \<lparr>prev = Site ''https://c.example'', next = Site ''https://a.example''\<rparr>"
    by simp
  moreover from calculateWebRingNavigation_hub [of 3 ?L None None new_URL] en
  have "calculateWebRingNavigation new_URL None ?L None =
     Inr \<lparr>prev = Site ''https://c.example'', next = Site ''https://a.example''\<rparr>"
    by simp
  ultimately show ?thesis using ed en find_d by simp
qed

subsection \<open>The fallback of the position finder\<close>

lemma findIndex_from_none:
  "(\<And>x. x \<in> set xs \<Longrightarrow> f x = Inr False) \<Longrightarrow> findIndex_from f k xs = Inr (- 1)"
  by (induction xs arbitrary: k) simp_all

lemma findCurrentSiteIndex_current_fails:
  assumes "URL currentSite = Inl e" "currentSite \<notin> set sites"
  shows "findCurrentSiteIndex URL sites currentSite = Inr (- 1)"
proof -
  have "site_matches URL currentSite x = Inr False" if "x \<in> set sites" for x
    using that assms by (auto simp: site_matches_current_fails)
  then show ?thesis
    by (simp add: findCurrentSiteIndex_def findIndex_def findIndex_from_none)
qed

text \<open>
  C7. When the URL constructor throws on a list entry or on the current-site string, the
  position finder compares that entry with the current-site string by plain string
  equality. Hence, for a current-site string that does not parse and a list that does not
  contain that very string, the finder returns \<open>-1\<close>, and the result of the navigation is
  that of the hub case.
\<close>

theorem findCurrentSiteIndex_fallback:
  "(isl (URL site) \<or> isl (URL currentSite) \<longrightarrow>
      site_matches URL currentSite site = Inr (site = currentSite)) \<and>
   (isl (URL currentSite) \<and> currentSite \<notin> set sites \<longrightarrow>
      findCurrentSiteIndex URL sites currentSite = Inr (- 1)) \<and>
   (isl (URL currentSite) \<and> currentSite \<notin> set sites \<and> currentSite \<noteq> [] \<and> sites \<noteq> [] \<longrightarrow>
      calculateWebRingNavigation URL window sites (Some currentSite) =
        Inr \<lparr>prev = Site (last sites), next = Site (hd sites)\<rparr>)"
proof (intro conjI impI)
  assume "isl (URL site) \<or> isl (URL currentSite)"
  then show "site_matches URL currentSite site = Inr (site = currentSite)"
    by (auto simp: isl_def site_matches_entry_fails site_matches_current_fails)
next
  assume "isl (URL currentSite) \<and> currentSite \<notin> set sites"
  then show "findCurrentSiteIndex URL sites currentSite = Inr (- 1)"
    by (auto simp: isl_def findCurrentSiteIndex_current_fails)
next
  assume h: "isl (URL currentSite) \<and> currentSite \<notin> set sites \<and> currentSite \<noteq> [] \<and> sites \<noteq> []"
  then have found: "findCurrentSiteIndex URL sites currentSite = Inr (- 1)"
    by (auto simp: isl_def findCurrentSiteIndex_current_fails)
  from h have eff: "effective_site window (Some currentSite) = Some currentSite"
    by (simp add: effective_site_def)
  from h have ne: "sites \<noteq> []" by simp
  from navigation_at_position [OF ne eff found] ne
  show "calculateWebRingNavigation URL window sites (Some currentSite) =
        Inr \<lparr>prev = Site (last sites), next = Site (hd sites)\<rparr>"
    by (simp add: hub_result)
qed

lemma new_URL_not_a_url: "new_URL ''not a url'' = Inl TypeError"
  by (simp add: new_URL_eval)

theorem findCurrentSiteIndex_fallback_witness:
  "isl (new_URL ''not a url'') \<and>
   ''not a url'' \<notin> set [''https://a.example'', ''https://b.example'', ''https://c.example''] \<and>
   site_matches new_URL ''not a url'' ''https://a.example'' = Inr False \<and>
   findCurrentSiteIndex new_URL
     [''https://a.example'', ''https://b.example'', ''https://c.example''] ''not a url'' = Inr (- 1) \<and>
   calculateWebRingNavigation new_URL None
     [''https://a.example'', ''https://b.example'', ''https://c.example''] (Some ''not a url'') =
     Inr \<lparr>prev = Site ''https://c.example'', next = Site ''https://a.example''\<rparr>"
proof -
  let ?L = "[''https://a.example'', ''https://b.example'', ''https://c.example'']"
  have fails: "isl (new_URL ''not a url'')"
    by (simp add: new_URL_not_a_url)
  have absent: "''not a url'' \<notin> set ?L" by simp
  note t = findCurrentSiteIndex_fallback
    [of new_URL "''https://a.example''" "''not a url''" ?L None]
  from t fails have "site_matches new_URL ''not a url'' ''https://a.example'' = Inr False"
    by simp
  moreover from t fails absent have "findCurrentSiteIndex new_URL ?L ''not a url'' = Inr (- 1)"
    by blast
  moreover from t fails absent have "calculateWebRingNavigation new_URL None ?L (Some ''not a url'') =
     Inr \<lparr>prev = Site ''https://c.example'', next = Site ''https://a.example''\<rparr>"
    by simp
  ultimately show ?thesis using fails absent by blast
qed

subsection \<open>Which current site is used\<close>

lemma calculateWebRingNavigation_traced_at:
  assumes "sites \<noteq> []" "effective_site window currentSite = Some s"
    "findCurrentSiteIndex URL sites s = Inr i"
  shows "calculateWebRingNavigation_traced URL window sites currentSite =
     ([Call_findCurrentSiteIndex sites s, Call_calculateNavigationIndices i (int (length sites))],
      Inr (navigation_at sites i))"
  using assms
  by (auto simp: calculateWebRingNavigation_traced_def effective_site_def navigation_at_def Let_def
      split: option.splits if_splits)

lemma calculateWebRingNavigation_at:
  assumes "sites \<noteq> []" "effective_site window currentSite = Some s"
    "findCurrentSiteIndex URL sites s = Inr i"
  shows "calculateWebRingNavigation URL window sites currentSite = Inr (navigation_at sites i)"
  using navigation_at_position [OF assms] by (simp add: navigation_at_def Let_def)

text \<open>
  C10. The current site given to the position finder is the explicit argument exactly when
  that is provided and not empty. With such an argument \<open>c\<close> the body calls the finder on
  \<open>c\<close> and builds the result from the position it returns, whatever the ambient location;
  so the result does not depend on the ambient location. With an empty or an omitted
  argument and an ambient location \<open>a\<close>, the finder is called on \<open>a\<close>; without an ambient
  location the finder is not called and the result is that of the sentinel, the last and
  the first entry. An empty argument gives the result of an omitted one.
\<close>

theorem calculateWebRingNavigation_current_site:
  "(sites \<noteq> [] \<and> c \<noteq> [] \<longrightarrow>
      (\<exists>i. findCurrentSiteIndex URL sites c = Inr i \<and>
           calculateWebRingNavigation URL window sites (Some c) = Inr (navigation_at sites i) \<and>
           calculateWebRingNavigation_traced URL window sites (Some c) =
             ([Call_findCurrentSiteIndex sites c,
               Call_calculateNavigationIndices i (int (length sites))],
              Inr (navigation_at sites i)))) \<and>
   (sites \<noteq> [] \<longrightarrow>
      (\<exists>i. findCurrentSiteIndex URL sites a = Inr i \<and>
           calculateWebRingNavigation URL (Some a) sites None = Inr (navigation_at sites i) \<and>
           calculateWebRingNavigation URL (Some a) sites (Some []) = Inr (navigation_at sites i) \<and>
           calculateWebRingNavigation_traced URL (Some a) sites None =
             ([Call_findCurrentSiteIndex sites a,
               Call_calculateNavigationIndices i (int (length sites))],
              Inr (navigation_at sites i)))) \<and>
   (sites \<noteq> [] \<longrightarrow>
      calculateWebRingNavigation URL None sites None =
        Inr \<lparr>prev = Site (last sites), next = Site (hd sites)\<rparr> \<and>
      calculateWebRingNavigation URL None sites (Some []) =
        Inr \<lparr>prev = Site (last sites), next = Site (hd sites)\<rparr> \<and>
      calculateWebRingNavigation_traced URL None sites None =
        ([Call_calculateNavigationIndices (- 1) (int (length sites))],
         Inr \<lparr>prev = Site (last sites), next = Site (hd sites)\<rparr>)) \<and>
   (c \<noteq> [] \<longrightarrow>
      calculateWebRingNavigation URL window sites (Some c) =
      calculateWebRingNavigation URL window' sites (Some c)) \<and>
   calculateWebRingNavigation URL window sites (Some []) =
     calculateWebRingNavigation URL window sites None \<and>
   (a \<noteq> [] \<longrightarrow>
      calculateWebRingNavigation URL (Some a) sites None =
      calculateWebRingNavigation URL window' sites (Some a))"
proof (intro conjI impI)
  assume h: "sites \<noteq> [] \<and> c \<noteq> []"
  then have ne: "sites \<noteq> []" and eff: "effective_site window (Some c) = Some c"
    by (simp_all add: effective_site_def)
  obtain i where i: "findCurrentSiteIndex URL sites c = Inr i"
    using findCurrentSiteIndex_range by blast
  from i calculateWebRingNavigation_at [OF ne eff i] calculateWebRingNavigation_traced_at [OF ne eff i]
  show "\<exists>i. findCurrentSiteIndex URL sites c = Inr i \<and>
           calculateWebRingNavigation URL window sites (Some c) = Inr (navigation_at sites i) \<and>
           calculateWebRingNavigation_traced URL window sites (Some c) =
             ([Call_findCurrentSiteIndex sites c,
               Call_calculateNavigationIndices i (int (length sites))],
              Inr (navigation_at sites i))"
    by blast
next
  assume ne: "sites \<noteq> []"
  have eff: "effective_site (Some a) None = Some a" "effective_site (Some a) (Some []) = Some a"
    by (simp_all add: effective_site_def)
  obtain i where i: "findCurrentSiteIndex URL sites a = Inr i"
    using findCurrentSiteIndex_range by blast
  from i calculateWebRingNavigation_at [OF ne eff(1) i] calculateWebRingNavigation_at [OF ne eff(2) i]
    calculateWebRingNavigation_traced_at [OF ne eff(1) i]
  show "\<exists>i. findCurrentSiteIndex URL sites a = Inr i \<and>
           calculateWebRingNavigation URL (Some a) sites None = Inr (navigation_at sites i) \<and>
           calculateWebRingNavigation URL (Some a) sites (Some []) = Inr (navigation_at sites i) \<and>
           calculateWebRingNavigation_traced URL (Some a) sites None =
             ([Call_findCurrentSiteIndex sites a,
               Call_calculateNavigationIndices i (int (length sites))],
              Inr (navigation_at sites i))"
    by blast
next
  assume ne: "sites \<noteq> []"
  have eff: "effective_site None None = None" "effective_site None (Some []) = None"
    by (simp_all add: effective_site_def)
  from navigation_undetermined [OF ne eff(1)] ne
  show "calculateWebRingNavigation URL None sites None =
        Inr \<lparr>prev = Site (last sites), next = Site (hd sites)\<rparr>"
    by (simp add: hub_result)
  from navigation_undetermined [OF ne eff(2)] ne
  show "calculateWebRingNavigation URL None sites (Some []) =
        Inr \<lparr>prev = Site (last sites), next = Site (hd sites)\<rparr>"
    by (simp add: hub_result)
  from ne hub_result [OF ne]
  show "calculateWebRingNavigation_traced URL None sites None =
        ([Call_calculateNavigationIndices (- 1) (int (length sites))],
         Inr \<lparr>prev = Site (last sites), next = Site (hd sites)\<rparr>)"
    by (simp add: calculateWebRingNavigation_traced_def Let_def)
next
  assume "c \<noteq> []"
  then show "calculateWebRingNavigation URL window sites (Some c) =
      calculateWebRingNavigation URL window' sites (Some c)"
    by (simp add: calculateWebRingNavigation_def)
next
  show "calculateWebRingNavigation URL window sites (Some []) =
     calculateWebRingNavigation URL window sites None"
    by (simp add: calculateWebRingNavigation_def)
next
  assume "a \<noteq> []"
  then show "calculateWebRingNavigation URL (Some a) sites None =
      calculateWebRingNavigation URL window' sites (Some a)"
    by (simp add: calculateWebRingNavigation_def)
qed

theorem calculateWebRingNavigation_current_site_witness:
  "[''https://a.example'', ''https://b.example'', ''https://c.example''] \<noteq> [] \<and>
   ''https://a.example'' \<noteq> [] \<and> ''https://c.example'' \<noteq> [] \<and>
   findCurrentSiteIndex new_URL
     [''https://a.example'', ''https://b.example'', ''https://c.example''] ''https://a.example'' = Inr 0 \<and>
   calculateWebRingNavigation new_URL (Some ''https://c.example'')
     [''https://a.example'', ''https://b.example'', ''https://c.example''] (Some ''https://a.example'') =
     Inr \<lparr>prev = Site ''https://c.example'', next = Site ''https://b.example''\<rparr> \<and>
   calculateWebRingNavigation_traced new_URL (Some ''https://c.example'')
     [''https://a.example'', ''https://b.example'', ''https://c.example''] (Some ''https://a.example'') =
     ([Call_findCurrentSiteIndex
         [''https://a.example'', ''https://b.example'', ''https://c.example''] ''https://a.example'',
       Call_calculateNavigationIndices 0 3],
      Inr \<lparr>prev = Site ''https://c.example'', next = Site ''https://b.example''\<rparr>) \<and>
   findCurrentSiteIndex new_URL
     [''https://a.example'', ''https://b.example'', ''https://c.example''] ''https://c.example'' = Inr 2 \<and>
   calculateWebRingNavigation new_URL (Some ''https://c.example'')
     [''https://a.example'', ''https://b.example'', ''https://c.example''] None =
     Inr \<lparr>prev = Site ''https://b.example'', next = Site ''https://a.example''\<rparr> \<and>
   calculateWebRingNavigation new_URL (Some ''https://c.example'')
     [''https://a.example'', ''https://b.example'', ''https://c.example''] (Some []) =
     Inr \<lparr>prev = Site ''https://b.example'', next = Site ''https://a.example''\<rparr> \<and>
   calculateWebRingNavigation new_URL None
     [''https://a.example'', ''https://b.example'', ''https://c.example''] None =
     Inr \<lparr>prev = Site ''https://c.example'', next = Site ''https://a.example''\<rparr> \<and>
   calculateWebRingNavigation new_URL None
     [''https://a.example'', ''https://b.example'', ''https://c.example''] (Some ''https://a.example'') =
   calculateWebRingNavigation new_URL (Some ''https://c.example'')
     [''https://a.example'', ''https://b.example'', ''https://c.example''] (Some ''https://a.example'')"
proof -
  let ?L = "[''https://a.example'', ''https://b.example'', ''https://c.example'']"
  have n0: "navigation_at ?L 0 =
      \<lparr>prev = Site ''https://c.example'', next = Site ''https://b.example''\<rparr>"
    by (simp add: navigation_at_def calculateNavigationIndices_def at_index_def)
  have n2: "navigation_at ?L 2 =
      \<lparr>prev = Site ''https://b.example'', next = Site ''https://a.example''\<rparr>"
    by (simp add: navigation_at_def calculateNavigationIndices_def at_index_def)
  note t = calculateWebRingNavigation_current_site
    [of ?L "''https://a.example''" new_URL "Some ''https://c.example''" "''https://c.example''" None]
  from t find_a have
    "calculateWebRingNavigation new_URL (Some ''https://c.example'') ?L (Some ''https://a.example'') =
       Inr (navigation_at ?L 0) \<and>
     calculateWebRingNavigation_traced new_URL (Some ''https://c.example'') ?L
       (Some ''https://a.example'') =
       ([Call_findCurrentSiteIndex ?L ''https://a.example'', Call_calculateNavigationIndices 0 3],
        Inr (navigation_at ?L 0))"
    by auto
  moreover from t find_c have
    "calculateWebRingNavigation new_URL (Some ''https://c.example'') ?L None =
       Inr (navigation_at ?L 2) \<and>
     calculateWebRingNavigation new_URL (Some ''https://c.example'') ?L (Some []) =
       Inr (navigation_at ?L 2)"
    by auto
  moreover from t have
    "calculateWebRingNavigation new_URL None ?L None =
       Inr \<lparr>prev = Site ''https://c.example'', next = Site ''https://a.example''\<rparr>"
    by simp
  moreover from t have
    "calculateWebRingNavigation new_URL None ?L (Some ''https://a.example'') =
     calculateWebRingNavigation new_URL (Some ''https://c.example'') ?L (Some ''https://a.example'')"
    by simp
  ultimately show ?thesis using find_a find_c n0 n2 by simp
qed

subsection \<open>The example of the spec\<close>

text \<open>
  C6. For the list of \<open>https://a.example\<close>, \<open>https://b.example\<close> and \<open>https://c.example\<close> and
  the current site \<open>https://www.b.example\<close>, the position finder returns index 1, and the
  navigation has \<open>prev\<close> \<open>https://a.example\<close> and \<open>next\<close> \<open>https://c.example\<close>. The
  hypotheses say what the constructor returns for the three URLs that the scan parses.
\<close>

theorem www_equivalence:
  assumes "URL ''https://a.example'' =
      Inr \<lparr>protocol = ''https:'', hostname = ''a.example'', port = [],
           origin = ''https://a.example''\<rparr>"
    and "URL ''https://b.example'' =
      Inr \<lparr>protocol = ''https:'', hostname = ''b.example'', port = [],
           origin = ''https://b.example''\<rparr>"
    and "URL ''https://www.b.example'' =
      Inr \<lparr>protocol = ''https:'', hostname = ''www.b.example'', port = [],
           origin = ''https://www.b.example''\<rparr>"
  shows "findCurrentSiteIndex URL
           [''https://a.example'', ''https://b.example'', ''https://c.example'']
           ''https://www.b.example'' = Inr 1 \<and>
         calculateWebRingNavigation URL window
           [''https://a.example'', ''https://b.example'', ''https://c.example'']
           (Some ''https://www.b.example'') =
           Inr \<lparr>prev = Site ''https://a.example'', next = Site ''https://c.example''\<rparr>"
proof -
  let ?L = "[''https://a.example'', ''https://b.example'', ''https://c.example'']"
  have na: "normalizeOrigin URL ''https://a.example'' = Inr ''https://a.example''"
    by (simp add: normalizeOrigin_parsed [where URL = URL, OF assms(1)]
        normalizeHostname_def string_eval)
  have nb: "normalizeOrigin URL ''https://b.example'' = Inr ''https://b.example''"
    by (simp add: normalizeOrigin_parsed [where URL = URL, OF assms(2)]
        normalizeHostname_def string_eval)
  have nw: "normalizeOrigin URL ''https://www.b.example'' = Inr ''https://b.example''"
    by (simp add: normalizeOrigin_parsed [where URL = URL, OF assms(3)]
        normalizeHostname_def string_eval)
  have ma: "site_matches URL ''https://www.b.example'' ''https://a.example'' = Inr False"
    using site_matches_parsed [where URL = URL, OF assms(1) assms(3)] na nw by simp
  have mb: "site_matches URL ''https://www.b.example'' ''https://b.example'' = Inr True"
    using site_matches_parsed [where URL = URL, OF assms(2) assms(3)] nb nw by simp
  have found: "findCurrentSiteIndex URL ?L ''https://www.b.example'' = Inr 1"
    by (simp add: findCurrentSiteIndex_def findIndex_def ma mb)
  have eff: "effective_site window (Some ''https://www.b.example'') = Some ''https://www.b.example''"
    by (simp add: effective_site_def)
  have ne: "?L \<noteq> []" by simp
  from navigation_at_position [OF ne eff found]
  have "calculateWebRingNavigation URL window ?L (Some ''https://www.b.example'') =
           Inr \<lparr>prev = Site ''https://a.example'', next = Site ''https://c.example''\<rparr>"
    by (simp add: calculateNavigationIndices_def at_index_def)
  with found show ?thesis by simp
qed

theorem www_equivalence_witness:
  "new_URL ''https://a.example'' =
      Inr \<lparr>protocol = ''https:'', hostname = ''a.example'', port = [],
           origin = ''https://a.example''\<rparr> \<and>
   new_URL ''https://b.example'' =
      Inr \<lparr>protocol = ''https:'', hostname = ''b.example'', port = [],
           origin = ''https://b.example''\<rparr> \<and>
   new_URL ''https://www.b.example'' =
      Inr \<lparr>protocol = ''https:'', hostname = ''www.b.example'', port = [],
           origin = ''https://www.b.example''\<rparr> \<and>
   findCurrentSiteIndex new_URL
     [''https://a.example'', ''https://b.example'', ''https://c.example'']
     ''https://www.b.example'' = Inr 1 \<and>
   calculateWebRingNavigation new_URL None
     [''https://a.example'', ''https://b.example'', ''https://c.example'']
     (Some ''https://www.b.example'') =
     Inr \<lparr>prev = Site ''https://a.example'', next = Site ''https://c.example''\<rparr>"
  using www_equivalence [where URL = new_URL and window = None,
      OF new_URL_a new_URL_b new_URL_www_b] new_URL_a new_URL_b new_URL_www_b
  by blast

subsection \<open>The fallback of the normaliser\<close>

lemma toLowerCase_append: "toLowerCase (a @ b) = toLowerCase a @ toLowerCase b"
  by (simp add: toLowerCase_def)

lemma toLowerCase_length: "length (toLowerCase s) = length s"
  by (simp add: toLowerCase_def)

lemma toLowerCase_take: "toLowerCase (take n s) = take n (toLowerCase s)"
  by (simp add: toLowerCase_def take_map)

lemma toLowerCase_https_www: "toLowerCase ''https://www.'' = ''https://www.''"
  by (simp add: string_eval)

lemma toLowerCase_http_www: "toLowerCase ''http://www.'' = ''http://www.''"
  by (simp add: string_eval)

lemma replace_scheme_www_https:
  assumes "toLowerCase p = ''https://''" "toLowerCase w = ''www.''"
  shows "replace_scheme_www (p @ w @ r) = p @ r"
proof -
  have "length (toLowerCase p) = 8" "length (toLowerCase w) = 4"
    by (simp_all add: assms)
  then have len: "length p = 8" "length w = 4"
    by (simp_all add: toLowerCase_length)
  have "match_prefix_i ''https://www.'' (p @ w @ r) = Some r"
    by (simp add: match_prefix_i_def toLowerCase_https_www len toLowerCase_append assms)
  with len show ?thesis
    by (simp add: replace_scheme_www_def)
qed

lemma replace_scheme_www_http:
  assumes "toLowerCase p = ''http://''" "toLowerCase w = ''www.''"
  shows "replace_scheme_www (p @ w @ r) = p @ r"
proof -
  have "length (toLowerCase p) = 7" "length (toLowerCase w) = 4"
    by (simp_all add: assms)
  then have len: "length p = 7" "length w = 4"
    by (simp_all add: toLowerCase_length)
  have no: "match_prefix_i ''https://www.'' (p @ w @ r) = None"
    by (simp add: match_prefix_i_def toLowerCase_https_www len toLowerCase_append assms)
  have "match_prefix_i ''http://www.'' (p @ w @ r) = Some r"
    by (simp add: match_prefix_i_def toLowerCase_http_www len toLowerCase_append assms)
  with no len show ?thesis
    by (simp add: replace_scheme_www_def)
qed

lemma match_prefix_i_split:
  assumes "match_prefix_i (a @ b) s = Some r"
  shows "s = take (length a) s @ take (length b) (drop (length a) s) @ r \<and>
         toLowerCase (take (length a) s) = toLowerCase a \<and>
         toLowerCase (take (length b) (drop (length a) s)) = toLowerCase b"
proof -
  from assms have eq: "toLowerCase (take (length a + length b) s) = toLowerCase a @ toLowerCase b"
    and r: "r = drop (length a + length b) s"
    by (auto simp: match_prefix_i_def toLowerCase_append split: if_splits)
  from eq have "length (take (length a + length b) s) = length a + length b"
    by (metis length_append toLowerCase_length)
  then have long: "length a + length b \<le> length s" by simp
  have t: "take (length a + length b) s = take (length a) s @ take (length b) (drop (length a) s)"
    by (simp add: take_add)
  from eq t have "toLowerCase (take (length a) s) @ toLowerCase (take (length b) (drop (length a) s))
      = toLowerCase a @ toLowerCase b"
    by (simp add: toLowerCase_append)
  moreover from long have "length (toLowerCase (take (length a) s)) = length (toLowerCase a)"
    by (simp add: toLowerCase_length)
  ultimately have "toLowerCase (take (length a) s) = toLowerCase a"
    "toLowerCase (take (length b) (drop (length a) s)) = toLowerCase b"
    by simp_all
  moreover have "s = take (length a) s @ take (length b) (drop (length a) s) @ r"
    using r t by (metis append_take_drop_id append.assoc)
  ultimately show ?thesis by simp
qed

lemma toLowerCase_scheme:
  "toLowerCase ''https://'' = ''https://''" "toLowerCase ''http://'' = ''http://''"
  "toLowerCase ''www.'' = ''www.''"
  by (simp_all add: string_eval)

lemma replace_scheme_www_id:
  assumes "\<not> (\<exists>p w r. s = p @ w @ r \<and>
      (toLowerCase p = ''http://'' \<or> toLowerCase p = ''https://'') \<and> toLowerCase w = ''www.'')"
  shows "replace_scheme_www s = s"
proof -
  have "match_prefix_i ''https://www.'' s = None"
  proof (rule ccontr)
    assume "match_prefix_i ''https://www.'' s \<noteq> None"
    then obtain r where "match_prefix_i (''https://'' @ ''www.'') s = Some r" by auto
    from match_prefix_i_split [OF this] obtain p w where
      "s = p @ w @ r" "toLowerCase p = ''https://''" "toLowerCase w = ''www.''"
      unfolding toLowerCase_scheme by blast
    with assms show False by blast
  qed
  moreover have "match_prefix_i ''http://www.'' s = None"
  proof (rule ccontr)
    assume "match_prefix_i ''http://www.'' s \<noteq> None"
    then obtain r where "match_prefix_i (''http://'' @ ''www.'') s = Some r" by auto
    from match_prefix_i_split [OF this] obtain p w where
      "s = p @ w @ r" "toLowerCase p = ''http://''" "toLowerCase w = ''www.''"
      unfolding toLowerCase_scheme by blast
    with assms show False by blast
  qed
  ultimately show ?thesis
    by (simp add: replace_scheme_www_def)
qed

lemma calculateWebRingNavigation_returns:
  "\<exists>r. calculateWebRingNavigation URL window sites currentSite = Inr r"
proof (cases "sites = []")
  case True
  then show ?thesis by (simp add: calculateWebRingNavigation_def)
next
  case False
  obtain i where
    "(case effective_site window currentSite of
        Some s \<Rightarrow> findCurrentSiteIndex URL sites s
      | None \<Rightarrow> Inr (- 1)) = Inr i"
    using current_index_range by blast
  with False show ?thesis
    by (simp add: calculateWebRingNavigation_unfold)
qed

text \<open>
  C5. No exception leaves the navigation or the normaliser, whatever the URL constructor
  throws: both return a value. When the constructor throws on its input, the normaliser
  returns the input with a \<open>www.\<close> removed that directly follows a leading \<open>http://\<close> or
  \<open>https://\<close> (in any mix of cases), and the input itself when it does not start so.
\<close>

theorem no_exception_propagates:
  "(\<exists>r. calculateWebRingNavigation URL window sites currentSite = Inr r) \<and>
   (\<exists>t. normalizeOrigin URL s = Inr t) \<and>
   (isl (URL s) \<longrightarrow>
      (\<forall>p w r. s = p @ w @ r \<and>
          (toLowerCase p = ''http://'' \<or> toLowerCase p = ''https://'') \<and>
          toLowerCase w = ''www.'' \<longrightarrow>
          normalizeOrigin URL s = Inr (p @ r)) \<and>
      ((\<nexists>p w r. s = p @ w @ r \<and>
          (toLowerCase p = ''http://'' \<or> toLowerCase p = ''https://'') \<and>
          toLowerCase w = ''www.'') \<longrightarrow>
          normalizeOrigin URL s = Inr s))"
proof (intro conjI impI allI)
  show "\<exists>r. calculateWebRingNavigation URL window sites currentSite = Inr r"
    by (rule calculateWebRingNavigation_returns)
  show "\<exists>t. normalizeOrigin URL s = Inr t"
    by (rule normalizeOrigin_returns)
next
  fix p w r
  assume "isl (URL s)"
  then obtain e where e: "URL s = Inl e" by (auto simp: isl_def)
  assume "s = p @ w @ r \<and>
          (toLowerCase p = ''http://'' \<or> toLowerCase p = ''https://'') \<and>
          toLowerCase w = ''www.''"
  then have "replace_scheme_www s = p @ r"
    using replace_scheme_www_http replace_scheme_www_https by blast
  with e show "normalizeOrigin URL s = Inr (p @ r)"
    by (simp add: normalizeOrigin_fallback)
next
  assume "isl (URL s)"
  then obtain e where e: "URL s = Inl e" by (auto simp: isl_def)
  assume "\<nexists>p w r. s = p @ w @ r \<and>
          (toLowerCase p = ''http://'' \<or> toLowerCase p = ''https://'') \<and>
          toLowerCase w = ''www.''"
  then have "replace_scheme_www s = s"
    by (rule replace_scheme_www_id)
  with e show "normalizeOrigin URL s = Inr s"
    by (simp add: normalizeOrigin_fallback)
qed

lemma new_URL_blank: "new_URL ''HTTP://WWW.a b'' = Inl TypeError"
  by (simp add: new_URL_eval)

lemma not_a_url_plain:
  "\<nexists>p w r. ''not a url'' = p @ w @ r \<and>
      (toLowerCase p = ''http://'' \<or> toLowerCase p = ''https://'') \<and> toLowerCase w = ''www.''"
proof
  assume "\<exists>p w r. ''not a url'' = p @ w @ r \<and>
      (toLowerCase p = ''http://'' \<or> toLowerCase p = ''https://'') \<and> toLowerCase w = ''www.''"
  then obtain p w r where d: "''not a url'' = p @ w @ r"
    and p: "toLowerCase p = ''http://'' \<or> toLowerCase p = ''https://''"
    by blast
  from d have "toLowerCase (take 1 p) = toLowerCase (take 1 ''not a url'') \<or> p = []"
    by (cases p) simp_all
  with p show False
    by (auto simp: toLowerCase_take string_eval)
qed

theorem no_exception_propagates_witness:
  "isl (new_URL ''HTTP://WWW.a b'') \<and>
   normalizeOrigin new_URL ''HTTP://WWW.a b'' = Inr ''HTTP://a b'' \<and>
   isl (new_URL ''not a url'') \<and>
   normalizeOrigin new_URL ''not a url'' = Inr ''not a url'' \<and>
   (\<exists>r. calculateWebRingNavigation new_URL None [''https://a.example''] (Some ''not a url'') = Inr r)"
proof -
  have f1: "isl (new_URL ''HTTP://WWW.a b'')" by (simp add: new_URL_blank)
  have f2: "isl (new_URL ''not a url'')" by (simp add: new_URL_not_a_url)
  have d: "''HTTP://WWW.a b'' = ''HTTP://'' @ ''WWW.'' @ ''a b'' \<and>
      (toLowerCase ''HTTP://'' = ''http://'' \<or> toLowerCase ''HTTP://'' = ''https://'') \<and>
      toLowerCase ''WWW.'' = ''www.''"
    by (simp add: string_eval)
  note t1 = no_exception_propagates
    [of new_URL None "[''https://a.example'']" "Some ''not a url''" "''HTTP://WWW.a b''"]
  note t2 = no_exception_propagates
    [of new_URL None "[''https://a.example'']" "Some ''not a url''" "''not a url''"]
  from t1 f1 d have "normalizeOrigin new_URL ''HTTP://WWW.a b'' = Inr (''HTTP://'' @ ''a b'')"
    by blast
  then have "normalizeOrigin new_URL ''HTTP://WWW.a b'' = Inr ''HTTP://a b''" by simp
  moreover from t2 f2 not_a_url_plain have "normalizeOrigin new_URL ''not a url'' = Inr ''not a url''"
    by blast
  moreover from t2 have
    "\<exists>r. calculateWebRingNavigation new_URL None [''https://a.example''] (Some ''not a url'') = Inr r"
    by blast
  ultimately show ?thesis using f1 f2 by blast
qed

subsection \<open>The port of the canonical string\<close>



subsection \<open>Normalising twice\<close>

lemma new_URL_www_www:
  "new_URL ''https://www.www.example.com'' =
     Inr \<lparr>protocol = ''https:'', hostname = ''www.www.example.com'', port = [],
          origin = ''https://www.www.example.com''\<rparr>"
  by (simp add: new_URL_eval)

lemma new_URL_www_example:
  "new_URL ''https://www.example.com'' =
     Inr \<lparr>protocol = ''https:'', hostname = ''www.example.com'', port = [],
          origin = ''https://www.example.com''\<rparr>"
  by (simp add: new_URL_eval)

lemma normalizeOrigin_www_www:
  "normalizeOrigin new_URL ''https://www.www.example.com'' = Inr ''https://www.example.com''"
  by (simp add: normalizeOrigin_parsed [where URL = new_URL, OF new_URL_www_www]
      normalizeHostname_def string_eval)

lemma normalizeOrigin_www_example:
  "normalizeOrigin new_URL ''https://www.example.com'' = Inr ''https://example.com''"
  by (simp add: normalizeOrigin_parsed [where URL = new_URL, OF new_URL_www_example]
      normalizeHostname_def string_eval)

text \<open>
  The host \<open>www.www.example.com\<close> loses one \<open>www.\<close> in each normalisation: the second
  normalisation changes the output of the first.
\<close>

theorem normalizeOrigin_not_idempotent:
  "normalizeOrigin new_URL ''https://www.www.example.com'' = Inr ''https://www.example.com'' \<and>
   normalizeOrigin_twice new_URL ''https://www.www.example.com'' = Inr ''https://example.com'' \<and>
   normalizeOrigin_twice new_URL ''https://www.www.example.com'' \<noteq>
     normalizeOrigin new_URL ''https://www.www.example.com''"
  by (simp add: normalizeOrigin_twice_def normalizeOrigin_www_www normalizeOrigin_www_example)

text \<open>The same on the fallback path, where no parser is involved in the outcome.\<close>

lemma replace_scheme_www_not_idempotent:
  "replace_scheme_www ''http://www.www.a b'' = ''http://www.a b'' \<and>
   replace_scheme_www ''http://www.a b'' = ''http://a b''"
  by (simp add: replace_scheme_www_def string_eval)

lemma toLowerCase_char_cases:
  "toLowerCase_char c = c \<or> toLowerCase_char c \<in> set ''abcdefghijklmnopqrstuvwxyz''"
  unfolding toLowerCase_char_def
  by (simp split: option.split)

lemma toLowerCase_char_lower:
  assumes "c \<in> set ''abcdefghijklmnopqrstuvwxyz''"
  shows "toLowerCase_char c = c"
proof -
  from assms have "c = CHR ''a'' \<or> c = CHR ''b'' \<or> c = CHR ''c'' \<or> c = CHR ''d'' \<or>
      c = CHR ''e'' \<or> c = CHR ''f'' \<or> c = CHR ''g'' \<or> c = CHR ''h'' \<or> c = CHR ''i'' \<or>
      c = CHR ''j'' \<or> c = CHR ''k'' \<or> c = CHR ''l'' \<or> c = CHR ''m'' \<or> c = CHR ''n'' \<or>
      c = CHR ''o'' \<or> c = CHR ''p'' \<or> c = CHR ''q'' \<or> c = CHR ''r'' \<or> c = CHR ''s'' \<or>
      c = CHR ''t'' \<or> c = CHR ''u'' \<or> c = CHR ''v'' \<or> c = CHR ''w'' \<or> c = CHR ''x'' \<or>
      c = CHR ''y'' \<or> c = CHR ''z''"
    by simp
  then show ?thesis
    by (elim disjE) (simp_all add: toLowerCase_char_def)
qed

lemma toLowerCase_char_idem: "toLowerCase_char (toLowerCase_char c) = toLowerCase_char c"
proof (cases "toLowerCase_char c = c")
  case True
  then show ?thesis by simp
next
  case False
  with toLowerCase_char_cases [of c]
  have "toLowerCase_char c \<in> set ''abcdefghijklmnopqrstuvwxyz''" by blast
  then show ?thesis by (rule toLowerCase_char_lower)
qed

lemma toLowerCase_idem: "toLowerCase (toLowerCase s) = toLowerCase s"
  by (simp add: toLowerCase_def toLowerCase_char_idem)

lemma toLowerCase_drop: "toLowerCase (drop n s) = drop n (toLowerCase s)"
  by (simp add: toLowerCase_def drop_map)

lemma normalizeHostname_lower: "toLowerCase (normalizeHostname h) = normalizeHostname h"
  by (simp add: normalizeHostname_def match_prefix_def Let_def toLowerCase_idem
      toLowerCase_drop)

lemma normalizeHostname_idem:
  assumes "take 4 (normalizeHostname h) \<noteq> ''www.''"
  shows "normalizeHostname (normalizeHostname h) = normalizeHostname h"
proof -
  have "normalizeHostname (normalizeHostname h) =
      (case match_prefix ''www.'' (normalizeHostname h) of
         Some rest \<Rightarrow> rest | None \<Rightarrow> normalizeHostname h)"
    by (subst normalizeHostname_def) (simp add: normalizeHostname_lower Let_def)
  moreover have "length ''www.'' = 4" by simp
  then have "match_prefix ''www.'' (normalizeHostname h) = None"
    unfolding match_prefix_def using assms by presburger
  ultimately show ?thesis by simp
qed

lemma scheme_length:
  assumes "toLowerCase p = ''http://'' \<or> toLowerCase p = ''https://''"
  shows "length p = 7 \<or> length p = 8"
proof -
  from assms have "length (toLowerCase p) = 7 \<or> length (toLowerCase p) = 8" by auto
  then show ?thesis by (simp add: toLowerCase_length)
qed

lemma scheme_prefix_unique:
  assumes "p @ x = q @ y"
    and "toLowerCase p = ''http://'' \<or> toLowerCase p = ''https://''"
    and "toLowerCase q = ''http://'' \<or> toLowerCase q = ''https://''"
  shows "p = q \<and> x = y"
proof -
  note lp = scheme_length [OF assms(2)] and lq = scheme_length [OF assms(3)]
  from assms(1) have "take 5 (p @ x) = take 5 (q @ y)" by simp
  with lp lq have "take 5 p = take 5 q" by auto
  then have "take 5 (toLowerCase p) = take 5 (toLowerCase q)"
    by (metis toLowerCase_take)
  with assms(2,3) have "toLowerCase p = toLowerCase q" by auto
  then have "length p = length q" by (metis toLowerCase_length)
  with assms(1) show ?thesis by simp
qed


lemma replace_scheme_www_idem:
  assumes "\<nexists>p w w' r. s = p @ w @ w' @ r \<and>
      (toLowerCase p = ''http://'' \<or> toLowerCase p = ''https://'') \<and>
      toLowerCase w = ''www.'' \<and> toLowerCase w' = ''www.''"
  shows "replace_scheme_www (replace_scheme_www s) = replace_scheme_www s"
proof (cases "\<exists>p w r. s = p @ w @ r \<and>
      (toLowerCase p = ''http://'' \<or> toLowerCase p = ''https://'') \<and> toLowerCase w = ''www.''")
  case True
  then obtain p w r where s: "s = p @ w @ r"
    and p: "toLowerCase p = ''http://'' \<or> toLowerCase p = ''https://''"
    and w: "toLowerCase w = ''www.''"
    by blast
  from s p w have stripped: "replace_scheme_www s = p @ r"
    using replace_scheme_www_http replace_scheme_www_https by blast
  have "\<nexists>q v y. p @ r = q @ v @ y \<and>
      (toLowerCase q = ''http://'' \<or> toLowerCase q = ''https://'') \<and> toLowerCase v = ''www.''"
  proof
    assume "\<exists>q v y. p @ r = q @ v @ y \<and>
      (toLowerCase q = ''http://'' \<or> toLowerCase q = ''https://'') \<and> toLowerCase v = ''www.''"
    then obtain q v y where e: "p @ r = q @ v @ y"
      and q: "toLowerCase q = ''http://'' \<or> toLowerCase q = ''https://''"
      and v: "toLowerCase v = ''www.''"
      by blast
    from scheme_prefix_unique [OF e p q] have "r = v @ y" by simp
    with s have "s = p @ w @ v @ y" by simp
    with p w v assms show False by blast
  qed
  then have "replace_scheme_www (p @ r) = p @ r"
    by (rule replace_scheme_www_id)
  with stripped show ?thesis by simp
next
  case False
  then have "replace_scheme_www s = s"
    by (rule replace_scheme_www_id)
  then show ?thesis by simp
qed

text \<open>
  C8, amended. Normalising twice gives the result of normalising once on the inputs with at
  most one leading \<open>www.\<close>. On the parsing path: when the normalised host does not begin
  with \<open>www.\<close> and the URL constructor reads the canonical string back as the protocol, the
  host and the port that the string spells. On the fallback path: when the constructor throws
  on the input and on the stripped input, and the input does not begin with a scheme followed
  by \<open>www.www.\<close>.
\<close>

theorem normalizeOrigin_idempotent_single_www:
  "(URL s = Inr u \<and> normalizeOrigin URL s = Inr t \<and> URL t = Inr u' \<and>
    protocol u' = protocol u \<and> hostname u' = normalizeHostname (hostname u) \<and>
    port u' = port u \<and> take 4 (normalizeHostname (hostname u)) \<noteq> ''www.'' \<longrightarrow>
      normalizeOrigin_twice URL s = normalizeOrigin URL s) \<and>
   (isl (URL s) \<and> isl (URL (replace_scheme_www s)) \<and>
    (\<nexists>p w w' r. s = p @ w @ w' @ r \<and>
        (toLowerCase p = ''http://'' \<or> toLowerCase p = ''https://'') \<and>
        toLowerCase w = ''www.'' \<and> toLowerCase w' = ''www.'') \<longrightarrow>
      normalizeOrigin_twice URL s = normalizeOrigin URL s)"
proof (intro conjI impI)
  assume h: "URL s = Inr u \<and> normalizeOrigin URL s = Inr t \<and> URL t = Inr u' \<and>
    protocol u' = protocol u \<and> hostname u' = normalizeHostname (hostname u) \<and>
    port u' = port u \<and> take 4 (normalizeHostname (hostname u)) \<noteq> ''www.''"
  then have first: "normalizeOrigin URL s = Inr t" and again: "URL t = Inr u'"
    and parsed: "URL s = Inr u"
    by simp_all
  from h have host: "normalizeHostname (hostname u') = normalizeHostname (hostname u)"
    by (simp add: normalizeHostname_idem)
  from normalizeOrigin_parsed [where URL = URL, OF again] h host
  have "normalizeOrigin URL t =
      Inr (protocol u @ ''//'' @ normalizeHostname (hostname u) @
           (if port u \<noteq> [] then '':'' @ port u else []))"
    by simp
  also have "\<dots> = normalizeOrigin URL s"
    using normalizeOrigin_parsed [where URL = URL, OF parsed] by simp
  finally show "normalizeOrigin_twice URL s = normalizeOrigin URL s"
    using first by (simp add: normalizeOrigin_twice_def)
next
  assume h: "isl (URL s) \<and> isl (URL (replace_scheme_www s)) \<and>
    (\<nexists>p w w' r. s = p @ w @ w' @ r \<and>
        (toLowerCase p = ''http://'' \<or> toLowerCase p = ''https://'') \<and>
        toLowerCase w = ''www.'' \<and> toLowerCase w' = ''www.'')"
  then obtain e e' where e: "URL s = Inl e" and e': "URL (replace_scheme_www s) = Inl e'"
    by (auto simp: isl_def)
  from h have "replace_scheme_www (replace_scheme_www s) = replace_scheme_www s"
    by (simp add: replace_scheme_www_idem)
  with e e' show "normalizeOrigin_twice URL s = normalizeOrigin URL s"
    by (simp add: normalizeOrigin_twice_def normalizeOrigin_fallback)
qed

lemma new_URL_blank_stripped: "new_URL ''HTTP://a b'' = Inl TypeError"
  by (simp add: new_URL_eval)

lemma replace_scheme_www_blank: "replace_scheme_www ''HTTP://WWW.a b'' = ''HTTP://a b''"
  by (simp add: replace_scheme_www_def string_eval)

lemma blank_single_www:
  "\<nexists>p w w' r. ''HTTP://WWW.a b'' = p @ w @ w' @ r \<and>
      (toLowerCase p = ''http://'' \<or> toLowerCase p = ''https://'') \<and>
      toLowerCase w = ''www.'' \<and> toLowerCase w' = ''www.''"
proof
  assume "\<exists>p w w' r. ''HTTP://WWW.a b'' = p @ w @ w' @ r \<and>
      (toLowerCase p = ''http://'' \<or> toLowerCase p = ''https://'') \<and>
      toLowerCase w = ''www.'' \<and> toLowerCase w' = ''www.''"
  then obtain p w w' r where d: "''HTTP://WWW.a b'' = p @ w @ w' @ r"
    and p: "toLowerCase p = ''http://'' \<or> toLowerCase p = ''https://''"
    and w: "toLowerCase w = ''www.''" "toLowerCase w' = ''www.''"
    by blast
  from w have "length (toLowerCase w) = 4" "length (toLowerCase w') = 4" by simp_all
  then have "length w = 4" "length w' = 4" by (simp_all add: toLowerCase_length)
  moreover note scheme_length [OF p]
  moreover from d have "length ''HTTP://WWW.a b'' = length (p @ w @ w' @ r)" by simp
  ultimately show False by auto
qed

theorem normalizeOrigin_idempotent_single_www_witness:
  "new_URL ''https://www.b.example'' =
     Inr \<lparr>protocol = ''https:'', hostname = ''www.b.example'', port = [],
          origin = ''https://www.b.example''\<rparr> \<and>
   normalizeOrigin new_URL ''https://www.b.example'' = Inr ''https://b.example'' \<and>
   new_URL ''https://b.example'' =
     Inr \<lparr>protocol = ''https:'', hostname = ''b.example'', port = [],
          origin = ''https://b.example''\<rparr> \<and>
   normalizeHostname ''www.b.example'' = ''b.example'' \<and>
   take 4 ''b.example'' \<noteq> ''www.'' \<and>
   normalizeOrigin_twice new_URL ''https://www.b.example'' =
     normalizeOrigin new_URL ''https://www.b.example'' \<and>
   isl (new_URL ''HTTP://WWW.a b'') \<and>
   isl (new_URL (replace_scheme_www ''HTTP://WWW.a b'')) \<and>
   normalizeOrigin_twice new_URL ''HTTP://WWW.a b'' = normalizeOrigin new_URL ''HTTP://WWW.a b''"
proof -
  have nh: "normalizeHostname ''www.b.example'' = ''b.example''"
    by (simp add: normalizeHostname_def string_eval)
  have t4: "take 4 ''b.example'' \<noteq> ''www.''" by simp
  have f1: "isl (new_URL ''HTTP://WWW.a b'')" by (simp add: new_URL_blank)
  have f2: "isl (new_URL (replace_scheme_www ''HTTP://WWW.a b''))"
    by (simp add: replace_scheme_www_blank new_URL_blank_stripped)
  from normalizeOrigin_idempotent_single_www
    [of new_URL "''https://www.b.example''"
      "\<lparr>protocol = ''https:'', hostname = ''www.b.example'', port = [],
        origin = ''https://www.b.example''\<rparr>"
      "''https://b.example''"
      "\<lparr>protocol = ''https:'', hostname = ''b.example'', port = [],
        origin = ''https://b.example''\<rparr>"]
    new_URL_www_b normalizeOrigin_www_b new_URL_b nh
  have a: "normalizeOrigin_twice new_URL ''https://www.b.example'' =
     normalizeOrigin new_URL ''https://www.b.example''"
    by simp
  from normalizeOrigin_idempotent_single_www [of new_URL "''HTTP://WWW.a b''"]
    f1 f2 blank_single_www
  have b: "normalizeOrigin_twice new_URL ''HTTP://WWW.a b'' =
     normalizeOrigin new_URL ''HTTP://WWW.a b''"
    by blast
  from a b nh t4 f1 f2 new_URL_www_b normalizeOrigin_www_b new_URL_b show ?thesis
    by blast
qed

subsection \<open>The port of the input and the port of the canonical string\<close>





















lemma match_prefix_i_Some:
  assumes "match_prefix_i q s = Some rest"
  shows "\<exists>p. s = p @ rest \<and> toLowerCase p = toLowerCase q"
proof -
  from assms have "toLowerCase (take (length q) s) = toLowerCase q" "rest = drop (length q) s"
    by (auto simp: match_prefix_i_def split: if_splits)
  then have "s = take (length q) s @ rest \<and> toLowerCase (take (length q) s) = toLowerCase q"
    by simp
  then show ?thesis ..
qed

lemma new_URL_scheme_shape:
  assumes "new_URL_scheme sch d rest = Inr u"
  shows "\<exists>h ds r. plain_domain h \<and> list_all is_digit ds \<and> digits_to_nat ds \<le> 65535 \<and>
           (r = [] \<or> hd r \<in> set ''/?#'') \<and> (rest = h @ r \<or> rest = h @ '':'' @ ds @ r)"
proof -
  define a where "a = takeWhile (\<lambda>c. c \<noteq> CHR ''/'' \<and> c \<noteq> CHR ''?'' \<and> c \<noteq> CHR ''#'') rest"
  define r where "r = dropWhile (\<lambda>c. c \<noteq> CHR ''/'' \<and> c \<noteq> CHR ''?'' \<and> c \<noteq> CHR ''#'') rest"
  define h where "h = takeWhile (\<lambda>c. c \<noteq> CHR '':'') a"
  define t where "t = dropWhile (\<lambda>c. c \<noteq> CHR '':'') a"
  define ds where "ds = drop (length h + 1) a"
  from assms have ok: "plain_domain h \<and> list_all is_digit ds \<and> digits_to_nat ds \<le> 65535"
    unfolding new_URL_scheme_def Let_def a_def [symmetric] h_def [symmetric] ds_def [symmetric]
    by (simp split: if_splits)
  have r: "r = [] \<or> hd r \<in> set ''/?#''"
    unfolding r_def
    using hd_dropWhile [of "\<lambda>c. c \<noteq> CHR ''/'' \<and> c \<noteq> CHR ''?'' \<and> c \<noteq> CHR ''#''" rest]
    by auto
  have rest: "rest = a @ r" by (simp add: a_def r_def)
  have a: "a = h @ t" by (simp add: h_def t_def)
  have shape: "rest = h @ r \<or> rest = h @ '':'' @ ds @ r"
  proof (cases t)
    case Nil
    with a rest show ?thesis by simp
  next
    case (Cons c t')
    then have "t \<noteq> []" by simp
    with hd_dropWhile [of "\<lambda>c. c \<noteq> CHR '':''" a] have "hd t = CHR '':''"
      by (simp add: t_def)
    with Cons have c: "c = CHR '':''" by simp
    from a Cons have "ds = t'" by (simp add: ds_def)
    with a Cons c rest show ?thesis by simp
  qed
  from ok r shape show ?thesis
    by (intro exI [of _ h] exI [of _ ds] exI [of _ r]) simp
qed

lemma new_URL_shape:
  assumes "new_URL s = Inr u"
  shows "\<exists>p d h ds r.
           (toLowerCase p = ''http://'' \<and> d = (80::nat) \<or> toLowerCase p = ''https://'' \<and> d = 443) \<and>
           plain_domain h \<and> list_all is_digit ds \<and> digits_to_nat ds \<le> 65535 \<and>
           (r = [] \<or> hd r \<in> set ''/?#'') \<and> (s = p @ h @ r \<or> s = p @ h @ '':'' @ ds @ r)"
proof -
  have "\<exists>p d sch rest. s = p @ rest \<and> new_URL_scheme sch d rest = Inr u \<and>
      (toLowerCase p = ''http://'' \<and> d = (80::nat) \<or> toLowerCase p = ''https://'' \<and> d = 443)"
  proof (cases "match_prefix_i ''https://'' s")
    case (Some rest)
    with assms have sch: "new_URL_scheme ''https'' 443 rest = Inr u" by (simp add: new_URL_def)
    from match_prefix_i_Some [OF Some] obtain p where
      p: "s = p @ rest" "toLowerCase p = ''https://''"
      unfolding toLowerCase_scheme by blast
    with sch show ?thesis
      by (intro exI [of _ p] exI [of _ 443] exI [of _ "''https''"] exI [of _ rest]) simp
  next
    case None
    show ?thesis
    proof (cases "match_prefix_i ''http://'' s")
      case (Some rest)
      with None assms have sch: "new_URL_scheme ''http'' 80 rest = Inr u"
        by (simp add: new_URL_def)
      from match_prefix_i_Some [OF Some] obtain p where
        p: "s = p @ rest" "toLowerCase p = ''http://''"
        unfolding toLowerCase_scheme by blast
      with sch show ?thesis
        by (intro exI [of _ p] exI [of _ 80] exI [of _ "''http''"] exI [of _ rest]) simp
    next
      case None': None
      with None assms show ?thesis by (simp add: new_URL_def)
    qed
  qed
  then obtain p d rest sch where s: "s = p @ rest"
    and parsed: "new_URL_scheme sch d rest = Inr u"
    and scheme: "toLowerCase p = ''http://'' \<and> d = 80 \<or> toLowerCase p = ''https://'' \<and> d = 443"
    by blast
  from new_URL_scheme_shape [OF parsed] obtain h ds r where
    parts: "plain_domain h \<and> list_all is_digit ds \<and> digits_to_nat ds \<le> 65535 \<and>
      (r = [] \<or> hd r \<in> set ''/?#'')"
    and rest: "rest = h @ r \<or> rest = h @ '':'' @ ds @ r"
    by blast
  from s rest have "s = p @ h @ r \<or> s = p @ h @ '':'' @ ds @ r" by auto
  with scheme parts show ?thesis
    by (intro exI [of _ p] exI [of _ d] exI [of _ h] exI [of _ ds] exI [of _ r]) simp
qed







end
